(* ===== verification/Ferr_Prelude.thy ===== *)
theory Ferr_Prelude
  imports Main "HOL-Library.Word"
begin

text \<open>
  The prelude of the development: the integer types of the Rust sources as fixed-width
  words, the outcome of a computation that may panic or spin for ever, Rust's
  \<open>Result\<close>, and the lemmas on words and lists that several components share.

  Arithmetic. Every script of the repository builds with \<^verbatim>\<open>--release\<close>
  (\<^verbatim>\<open>run_os.sh\<close>, \<^verbatim>\<open>run_os.bat\<close>, \<^verbatim>\<open>run_tests.sh\<close>), where Rust's
  \<open>+\<close>, \<open>-\<close> and \<open>*\<close> wrap around and a shift amount is taken modulo the width;
  the operations of \<open>HOL-Library.Word\<close> do the same. Division by zero and an index
  outside an array panic in every profile and are written out in the models.
\<close>

unbundle bit_operations_syntax

section \<open>Types\<close>

type_synonym u8 = "8 word"
type_synonym u16 = "16 word"
type_synonym u32 = "32 word"
type_synonym u64 = "64 word"
type_synonym u128 = "128 word"
type_synonym usize = "64 word"

text \<open>Rust's \<open>Result<'a, &'static str>\<close>: \<open>Inl\<close> the error, \<open>Inr\<close> the value.\<close>

type_synonym 'a result = "string + 'a"

text \<open>
  What a call does: it returns a value, it panics with a message, or it enters an empty
  \<open>loop {}\<close> and never returns.
\<close>

datatype 'a outcome = Done 'a | Panic string | Hang

primrec bindO :: "'a outcome \<Rightarrow> ('a \<Rightarrow> 'b outcome) \<Rightarrow> 'b outcome" where
  "bindO (Done x) f = f x"
| "bindO (Panic m) f = Panic m"
| "bindO Hang f = Hang"

text \<open>\<open>Result::expect\<close> and \<open>Option::expect\<close> (and \<open>unwrap\<close>, with an empty message).\<close>

primrec expect :: "string \<Rightarrow> 'e + 'a \<Rightarrow> 'a outcome" where
  "expect m (Inl e) = Panic m"
| "expect m (Inr x) = Done x"

primrec expect_some :: "string \<Rightarrow> 'a option \<Rightarrow> 'a outcome" where
  "expect_some m None = Panic m"
| "expect_some m (Some x) = Done x"

section \<open>Collections of facts\<close>

named_theorems outcome_simps \<open>inversion of \<open>bindO\<close>, \<open>expect\<close> and their kin\<close>
named_theorems layout_simps \<open>addresses and offsets of memory-mapped structures\<close>

lemma bindO_eq_Done [outcome_simps]:
  "bindO m f = Done y \<longleftrightarrow> (\<exists>x. m = Done x \<and> f x = Done y)"
  by (cases m) auto

lemma expect_eq_Done [outcome_simps]: "expect m r = Done x \<longleftrightarrow> r = Inr x"
  by (cases r) auto

lemma expect_some_eq_Done [outcome_simps]: "expect_some m r = Done x \<longleftrightarrow> r = Some x"
  by (cases r) auto

lemma bindO_assoc: "bindO (bindO m f) g = bindO m (\<lambda>x. bindO (f x) g)"
  by (cases m) auto

section \<open>Words\<close>

lemma word_and_mask_eq_take_bit: "w AND mask n = take_bit n w" for w :: "'a::len word"
  by (simp add: take_bit_eq_mask)

lemma u64_max_eq_mask: "(0xffffffffffffffff :: u64) = mask 64"
  by (simp add: mask_eq_exp_minus_1)

lemma word_bits_iff: "v = w \<longleftrightarrow> (\<forall>n<LENGTH('a). bit v n = bit w n)" for v w :: "'a::len word"
  by (auto intro: bit_word_eqI)

lemma xor_left_self [simp]: "x XOR (x XOR y) = y" for x y :: "'a::len word"
  by (metis xor.assoc xor.left_neutral xor_self_eq)

lemma xor_cancel_right: "x XOR z = y XOR z \<longleftrightarrow> x = y" for x y z :: "'a::len word"
  by (metis xor.assoc xor.right_neutral xor_self_eq)

lemma unat_take_bit_less: "unat (take_bit n w) < 2 ^ n" for w :: "'a::len word"
  by (simp add: unsigned_take_bit_eq)

lemma bit_below: "unat w < 2 ^ n \<Longrightarrow> bit w i \<Longrightarrow> i < n" for w :: "'a::len word"
proof -
  assume *: "unat w < 2 ^ n" "bit w i"
  then have "take_bit n w = w" by (simp add: word_unat_eq_iff unsigned_take_bit_eq take_bit_nat_eq_self)
  then show "i < n" using *(2) by (metis bit_take_bit_iff)
qed

lemma ucast_u8_u32_id: "ucast (ucast (b :: u8) :: u32) = b"
  by (rule bit_word_eqI) (simp add: bit_ucast_iff)

lemma ucast_u8_u32_inj: "(ucast (b :: u8) :: u32) = ucast b' \<longleftrightarrow> b = b'"
  by (metis ucast_u8_u32_id)

lemma unat_less_2p64 [simp]: "unat (w :: u64) < 18446744073709551616"
  using unsigned_less [of w] by simp

section \<open>Text\<close>

text \<open>\<open>core::str::from_utf8\<close>: the well-formed byte sequences of the Unicode standard.\<close>

fun utf8_ok :: "nat list \<Rightarrow> bool" where
  "utf8_ok [] = True"
| "utf8_ok (a # bs) =
     (if a < 0x80 then utf8_ok bs
      else case bs of
        [] \<Rightarrow> False
      | b # cs \<Rightarrow>
          if 0xC2 \<le> a \<and> a \<le> 0xDF then 0x80 \<le> b \<and> b \<le> 0xBF \<and> utf8_ok cs
          else case cs of
            [] \<Rightarrow> False
          | c # ds \<Rightarrow>
              if 0xE0 \<le> a \<and> a \<le> 0xEF then
                (if a = 0xE0 then 0xA0 else 0x80) \<le> b \<and> b \<le> (if a = 0xED then 0x9F else 0xBF) \<and>
                0x80 \<le> c \<and> c \<le> 0xBF \<and> utf8_ok ds
              else case ds of
                [] \<Rightarrow> False
              | d # es \<Rightarrow>
                  0xF0 \<le> a \<and> a \<le> 0xF4 \<and>
                  (if a = 0xF0 then 0x90 else 0x80) \<le> b \<and> b \<le> (if a = 0xF4 then 0x8F else 0xBF) \<and>
                  0x80 \<le> c \<and> c \<le> 0xBF \<and> 0x80 \<le> d \<and> d \<le> 0xBF \<and> utf8_ok es)"

end
