(* ===== verification/Crc.thy ===== *)
theory Crc
  imports Ferr_Prelude
begin

text \<open>
  CRC-32 (\<^verbatim>\<open>shared_lib/src/crc.rs\<close>): the table computed at compile time, the two
  table-driven routines, a bitwise reference and the error-detection guarantee of the code.
\<close>

section \<open>The code\<close>

text \<open>The inner loop of the table computation, from iteration \<open>j\<close>.\<close>

function crc_table_entry :: "nat \<Rightarrow> u32 \<Rightarrow> u32 \<Rightarrow> u32" where
  "crc_table_entry j ch crc =
     (if j < 8 then
        let b = (ch XOR crc) AND 1;
            crc = drop_bit 1 crc;
            crc = (if b \<noteq> 0 then crc XOR 0xEDB88320 else crc);
            ch = drop_bit 1 ch
        in crc_table_entry (j + 1) ch crc
      else crc)"
  by pat_completeness auto
termination
  by (relation "measure (\<lambda>(j, ch, crc). 8 - j)") auto

declare crc_table_entry.simps [simp del]

definition CRC32_TABLE :: "u32 list" where
  "CRC32_TABLE = map (\<lambda>i. crc_table_entry 0 (of_nat i) 0) [0..<256]"

definition crc32_step :: "u32 \<Rightarrow> u8 \<Rightarrow> u32" where
  "crc32_step crc byte =
     (let idx = (ucast byte XOR crc) AND 0xFF
      in drop_bit 8 crc XOR CRC32_TABLE ! unat idx)"

definition calculate_crc32_partial :: "u8 list \<Rightarrow> u32 \<Rightarrow> u32" where
  "calculate_crc32_partial input crc = foldl crc32_step crc input"

definition calculate_crc32 :: "u8 list \<Rightarrow> u32" where
  "calculate_crc32 input = NOT (foldl crc32_step 0xFFFFFFFF input)"

section \<open>A bitwise reference\<close>

text \<open>One step of the shift register with the reflected polynomial, and eight of them per byte.\<close>

definition crc_shift :: "u32 \<Rightarrow> u32" where
  "crc_shift x = drop_bit 1 x XOR (if bit x 0 then 0xEDB88320 else 0)"

definition crc_ref_byte :: "u32 \<Rightarrow> u8 \<Rightarrow> u32" where
  "crc_ref_byte crc b = (crc_shift ^^ 8) (crc XOR ucast b)"

lemma crc_shift_xor: "crc_shift (x XOR y) = crc_shift x XOR crc_shift y"
  by (rule bit_word_eqI) (auto simp: crc_shift_def bit_simps)

lemma funpow_crc_shift_xor:
  "(crc_shift ^^ n) (x XOR y) = (crc_shift ^^ n) x XOR (crc_shift ^^ n) y"
  by (induction n) (simp_all add: crc_shift_xor)

lemma and_1_neq_0: "x AND 1 \<noteq> 0 \<longleftrightarrow> bit x 0" for x :: u32
  by (simp add: and_one_eq bit_0) (metis dvd_triv_left mod2_eq_if one_neq_zero)

lemma crc_table_entry_step:
  assumes "j < 8"
  shows "crc_table_entry j ch crc =
    crc_table_entry (Suc j) (drop_bit 1 ch) (crc_shift (ch XOR crc) XOR drop_bit 1 ch)"
  using assms
  by (subst crc_table_entry.simps)
     (auto simp: Let_def and_1_neq_0 and_1_neq_0 [unfolded and.commute [of _ 1]] crc_shift_def drop_bit_xor ac_simps)

lemma crc_table_entry_run:
  "j + n = 8 \<Longrightarrow> crc_table_entry j ch crc = (crc_shift ^^ n) (ch XOR crc) XOR drop_bit n ch"
proof (induction n arbitrary: j ch crc)
  case 0
  then show ?case by (subst crc_table_entry.simps) (simp add: ac_simps)
next
  case (Suc n)
  then have "j < 8" by simp
  moreover have "drop_bit 1 ch XOR (crc_shift (ch XOR crc) XOR drop_bit 1 ch) = crc_shift (ch XOR crc)"
    by (simp add: ac_simps)
  ultimately show ?case
    using Suc.prems by (simp add: crc_table_entry_step Suc.IH funpow_Suc_right del: funpow.simps)
qed

lemma crc_table_nth:
  assumes "unat w < 256"
  shows "CRC32_TABLE ! unat w = (crc_shift ^^ 8) w"
proof -
  have "drop_bit 8 w = 0"
    using assms by (simp add: drop_bit_eq_div word_unat_eq_iff unat_div)
  with assms show ?thesis
    by (simp add: CRC32_TABLE_def crc_table_entry_run)
qed

lemma crc_shift_push:
  "k < 8 \<Longrightarrow> crc_shift (push_bit (Suc k) (drop_bit 8 x)) = push_bit k (drop_bit 8 x)"
  by (rule bit_word_eqI)
     (auto simp: crc_shift_def bit_simps simp del: push_bit_Suc dest: bit_imp_le_length)

lemma funpow_crc_shift_high:
  "k \<le> 8 \<Longrightarrow> (crc_shift ^^ k) (push_bit k (drop_bit 8 x)) = drop_bit 8 x"
  by (induction k) (simp_all add: funpow_Suc_right crc_shift_push del: funpow.simps push_bit_Suc)

lemma word_split_8: "x = push_bit 8 (drop_bit 8 x) XOR take_bit 8 x" for x :: u32
  by (rule bit_word_eqI) (auto simp: bit_simps)

lemma crc32_step_ref: "crc32_step crc b = crc_ref_byte crc b"
proof -
  let ?x = "crc XOR ucast b :: u32"
  have idx: "(ucast b XOR crc) AND 0xFF = take_bit 8 ?x"
    by (simp add: take_bit_eq_mask mask_eq_exp_minus_1 ac_simps)
  have high: "drop_bit 8 ?x = drop_bit 8 crc"
    by (rule bit_word_eqI) (auto simp: bit_simps dest: bit_imp_le_length)
  have "unat (take_bit 8 ?x) < 256"
    using unat_take_bit_less [of 8 ?x] by (simp del: take_bit_xor)
  then have "crc32_step crc b = drop_bit 8 crc XOR (crc_shift ^^ 8) (take_bit 8 ?x)"
    by (simp add: crc32_step_def idx crc_table_nth)
  also have "drop_bit 8 crc = (crc_shift ^^ 8) (push_bit 8 (drop_bit 8 ?x))"
    by (metis funpow_crc_shift_high high order_refl)
  also have "\<dots> XOR (crc_shift ^^ 8) (take_bit 8 ?x) = (crc_shift ^^ 8) ?x"
    by (subst (3) word_split_8) (simp only: funpow_crc_shift_xor)
  finally show ?thesis by (simp add: crc_ref_byte_def)
qed

lemma crc_shift_inj: "inj crc_shift"
proof (rule injI)
  fix x y assume eq: "crc_shift x = crc_shift y"
  have top: "bit (crc_shift z) 31 = bit z 0" for z
    by (auto simp: crc_shift_def bit_simps dest: bit_imp_le_length)
  with eq have low: "bit x 0 = bit y 0" by metis
  with eq have "drop_bit 1 x = drop_bit 1 y"
    by (auto simp: crc_shift_def xor_cancel_right split: if_splits)
  then have "bit x (Suc n) = bit y (Suc n)" for n
    by (metis bit_drop_bit_eq comp_apply plus_1_eq_Suc)
  with low show "x = y"
    by (metis bit_word_eqI not0_implies_Suc)
qed

lemma funpow_crc_shift_inj: "inj (crc_shift ^^ n)"
  by (induction n) (auto intro: inj_compose crc_shift_inj simp del: o_apply)

lemma crc_ref_byte_inj: "crc_ref_byte c b = crc_ref_byte d b' \<longleftrightarrow> c XOR ucast b = d XOR ucast b'"
  by (simp add: crc_ref_byte_def inj_eq [OF funpow_crc_shift_inj])

lemma foldl_crc32_inj: "foldl crc32_step c bs = foldl crc32_step d bs \<longleftrightarrow> c = d"
  by (induction bs arbitrary: c d) (simp_all add: crc32_step_ref crc_ref_byte_inj xor_cancel_right)

section \<open>Bursts\<close>

primrec burst_word :: "u8 list \<Rightarrow> u32" where
  "burst_word [] = 0"
| "burst_word (b # bs) = ucast b XOR push_bit 8 (burst_word bs)"

lemma le_bytes_bound: "bit (burst_word bs) i \<Longrightarrow> i < 8 * length bs"
proof (induction bs arbitrary: i)
  case (Cons b bs)
  then have "i < 8 \<or> 8 \<le> i \<and> bit (burst_word bs) (i - 8)"
    by (auto simp: bit_simps dest: bit_imp_le_length)
  then show ?case using Cons.IH [of "i - 8"] by auto
qed simp

lemma le_bytes_nth:
  "j < length bs \<Longrightarrow> j < 4 \<Longrightarrow> i < 8 \<Longrightarrow> bit (burst_word bs) (8 * j + i) = bit (bs ! j) i"
proof (induction bs arbitrary: j)
  case (Cons b bs)
  then show ?case
    by (cases j) (auto simp: bit_simps dest: bit_imp_le_length)
qed simp

lemma le_bytes_inj:
  assumes "length bs = length cs" "length bs \<le> 4" "burst_word bs = burst_word cs"
  shows "bs = cs"
proof (rule nth_equalityI)
  show "length bs = length cs" by fact
  fix j assume "j < length bs"
  then show "bs ! j = cs ! j"
    using le_bytes_nth [of j bs] le_bytes_nth [of j cs] assms by (intro bit_word_eqI) simp
qed

lemma crc_shift_8_push:
  assumes "\<And>i. bit w i \<Longrightarrow> i < 24"
  shows "(crc_shift ^^ 8) (push_bit 8 w) = w"
proof -
  have "drop_bit 8 (push_bit 8 w) = w"
    by (rule bit_word_eqI) (use assms in \<open>auto simp: bit_simps\<close>)
  then show ?thesis using funpow_crc_shift_high [of 8 "push_bit 8 w"] by simp
qed

lemma crc_run:
  "length bs \<le> 4 \<Longrightarrow> foldl crc32_step c bs = (crc_shift ^^ (8 * length bs)) (c XOR burst_word bs)"
proof (induction bs arbitrary: c)
  case (Cons b bs)
  have push: "(crc_shift ^^ 8) (push_bit 8 (burst_word bs)) = burst_word bs"
    using le_bytes_bound [of bs] Cons.prems by (intro crc_shift_8_push) fastforce
  have "foldl crc32_step c (b # bs) =
      (crc_shift ^^ (8 * length bs)) ((crc_shift ^^ 8) (c XOR ucast b) XOR burst_word bs)"
    using Cons.prems by (simp add: Cons.IH crc32_step_ref [of c b] crc_ref_byte_def)
  also have "\<dots> = (crc_shift ^^ (8 * length bs)) ((crc_shift ^^ 8) (c XOR ucast b XOR push_bit 8 (burst_word bs)))"
    by (simp only: funpow_crc_shift_xor push xor.assoc)
  also have "\<dots> = (crc_shift ^^ (8 * length (b # bs))) (c XOR burst_word (b # bs))"
    using funpow_add [of "8 * length bs" 8 crc_shift] by (simp add: add.commute xor.assoc)
  finally show ?case .
qed simp

section \<open>The test vectors of the source\<close>

lemma crc_shift_numeral:
  "crc_shift (numeral n) = drop_bit 1 (numeral n) XOR (if even (numeral n :: u32) then 0 else 0xEDB88320)"
  by (simp add: crc_shift_def bit_0)

lemma funpow_8: "(f ^^ 8) x = f (f (f (f (f (f (f (f x)))))))"
  by (simp add: eval_nat_numeral)

lemmas crc32_eval = calculate_crc32_def crc32_step_ref crc_ref_byte_def funpow_8 crc_shift_numeral

lemma simple_crc32_test:
  "calculate_crc32 [0x61, 0x62, 0x63, 0x64, 0x65, 0x66] = 1267612143"
  "calculate_crc32 [0x31, 0x32, 0x33, 0x34, 0x35, 0x36, 0x37, 0x38, 0x39] = 0xCBF43926"
  by (simp_all add: crc32_eval)

section \<open>Properties\<close>

text \<open>
  C19. The table-driven routines compute the bitwise CRC: both fold the same
  shift register over the bytes, \<open>calculate_crc32\<close> from all ones and inverting the result, and
  a CRC over concatenated inputs can be computed piecewise with \<open>calculate_crc32_partial\<close>.
\<close>

theorem crc32_table_equivalence:
  "calculate_crc32_partial input crc = foldl crc_ref_byte crc input \<and>
   calculate_crc32 input = NOT (foldl crc_ref_byte 0xFFFFFFFF input) \<and>
   calculate_crc32 (input @ rest) = NOT (calculate_crc32_partial rest (NOT (calculate_crc32 input)))"
proof -
  have "crc32_step = crc_ref_byte" by (intro ext) (rule crc32_step_ref)
  then show ?thesis by (simp add: calculate_crc32_partial_def calculate_crc32_def)
qed

text \<open>
  C10. Every change of an input that is confined to four consecutive bytes (a burst of
  at most 32 bits) changes the checksum.
\<close>

theorem crc32_detects_bursts:
  assumes "length bs = length cs" "length bs \<le> 4" "bs \<noteq> cs"
  shows "calculate_crc32 (pre @ bs @ post) \<noteq> calculate_crc32 (pre @ cs @ post)"
proof
  assume "calculate_crc32 (pre @ bs @ post) = calculate_crc32 (pre @ cs @ post)"
  then have "c XOR burst_word bs = c XOR burst_word cs" if "c = foldl crc32_step 0xFFFFFFFF pre" for c
    using that assms(1,2)
    by (simp add: calculate_crc32_def foldl_crc32_inj crc_run inj_eq [OF funpow_crc_shift_inj])
  then have "burst_word bs = burst_word cs" by (metis xor_left_self)
  then show False using le_bytes_inj [of bs cs] assms by simp
qed

theorem crc32_detects_bursts_witness:
  "calculate_crc32 ([1, 2] @ [3, 4, 5, 6] @ [7]) \<noteq> calculate_crc32 ([1, 2] @ [3, 0, 5, 9] @ [7])"
  by (rule crc32_detects_bursts) simp_all

end
