(* ===== verification/Bits.thy ===== *)
theory Bits
  imports Ferr_Prelude
begin

text \<open>
  Bit fields of 64-bit registers (\<^verbatim>\<open>shared_lib/src/bits.rs\<close>). The functions that update
  their argument in place return the new value here. In release builds the amount of a shift is
  taken modulo the width, which the definitions write out.
\<close>

definition set_bit_u64 :: "u64 \<Rightarrow> u8 \<Rightarrow> bool \<Rightarrow> u64" where
  "set_bit_u64 num n value =
     (let msk = push_bit (unat n mod 64) (1 :: u64)
      in if value then num OR msk else num AND NOT msk)"

definition set_bits_u64 :: "u64 \<Rightarrow> u64 \<Rightarrow> u8 \<Rightarrow> u64" where
  "set_bits_u64 num msk shift =
     (let m = push_bit (unat shift mod 64) msk in num OR m)"

definition get_bits :: "u64 \<Rightarrow> u8 \<Rightarrow> u8 \<Rightarrow> u64" where
  "get_bits num range_start range_end =
     (let cut_first_bits = drop_bit (unat range_start mod 64) num
      in if range_end \<noteq> 64
         then cut_first_bits AND drop_bit (unat range_end mod 64) 0xffffffffffffffff
         else cut_first_bits)"

section \<open>Bit by bit\<close>

lemma bit_set_bit_u64 [bit_simps]:
  "unat n < 64 \<Longrightarrow> bit (set_bit_u64 num n value) i = (if i = unat n then value else bit num i)"
  by (auto simp: set_bit_u64_def bit_simps Let_def dest: bit_imp_le_length)

lemma bit_set_bits_u64 [bit_simps]:
  "unat shift < 64 \<Longrightarrow>
     bit (set_bits_u64 num msk shift) i \<longleftrightarrow> bit num i \<or> unat shift \<le> i \<and> i < 64 \<and> bit msk (i - unat shift)"
  by (auto simp: set_bits_u64_def bit_simps dest: bit_imp_le_length)

lemma get_bits_eq:
  "unat e < 64 \<Longrightarrow> unat s < 64 \<Longrightarrow> get_bits num s e = take_bit (64 - unat e) (drop_bit (unat s) num)"
  by (rule bit_word_eqI) (auto simp: get_bits_def bit_simps u64_max_eq_mask Let_def)

lemma set_bit_test: "set_bit_u64 0x80 4 True = 0x90" "set_bit_u64 0x90 7 False = 0x10"
  by (simp_all add: set_bit_u64_def)

lemma set_bits_test: "set_bits_u64 (push_bit 47 1) 0x9a 16 = 0x8000009a0000"
  by (simp add: set_bits_u64_def)

lemma get_bits_test:
  "get_bits 0x28 3 6 = 5" "get_bits 0x8000000000000000 63 64 = 1"
  "get_bits 0x0000377700000000 32 48 = 0x3777" "get_bits 0x22 0 6 = 0x22"
  by (simp_all add: get_bits_def)

section \<open>Properties\<close>

text \<open>
  \<open>set_bit\<close> gives the named bit the value and leaves every other bit;
  \<open>set_bits\<close> only ever adds bits: the field is overwritten exactly where it was zero.
\<close>

theorem set_bit_exact:
  assumes "unat n < 64"
  shows "bit (set_bit_u64 num n value) i = (if i = unat n then value else bit num i) \<and>
    set_bits_u64 num msk n = num OR push_bit (unat n) msk"
  using assms by (simp add: bit_simps set_bits_u64_def)

theorem set_bit_exact_witness:
  "bit (set_bit_u64 0x80 7 False) 7 = False \<and> set_bits_u64 1 0x3 7 = 0x181"
  using set_bit_exact [of 7 "0x80" False 7 "1"] set_bit_exact [of 7 1 False 7 3] by simp

text \<open>
  C21. \<open>get_bits\<close> keeps \<open>64 - end\<close> bits and not the \<open>end - start\<close> bits of the
  range it is given, so it reads the field of the range exactly when the bits
  between the end of the range and the end of what is kept are zero in the number.
\<close>

theorem get_bits_field_iff:
  assumes "unat s \<le> unat e" "unat e < 64"
  shows "get_bits num s e = take_bit (unat e - unat s) (drop_bit (unat s) num) \<longleftrightarrow>
    (\<forall>i. min (unat e) (unat s + (64 - unat e)) \<le> i \<and> i < max (unat e) (unat s + (64 - unat e))
       \<longrightarrow> \<not> bit num i)"
    (is "?l = ?r \<longleftrightarrow> ?z")
proof -
  have "?l = ?r \<longleftrightarrow> (\<forall>i<64. bit ?l i = bit ?r i)" by (simp add: word_bits_iff)
  also have "\<dots> \<longleftrightarrow> (\<forall>i. bit num (unat s + i) \<longrightarrow> (i < 64 - unat e \<longleftrightarrow> i < unat e - unat s))"
  proof -
    have "bit num (unat s + i) \<Longrightarrow> i < 64" for i by (auto dest: bit_imp_le_length)
    then show ?thesis using assms by (simp add: get_bits_eq bit_simps) blast
  qed
  also have "\<dots> \<longleftrightarrow> ?z"
  proof
    assume h: "\<forall>i. bit num (unat s + i) \<longrightarrow> (i < 64 - unat e \<longleftrightarrow> i < unat e - unat s)"
    show ?z
    proof (intro allI impI notI)
      fix i assume i: "min (unat e) (unat s + (64 - unat e)) \<le> i \<and> i < max (unat e) (unat s + (64 - unat e))"
        and b: "bit num i"
      have "unat s \<le> i" using i assms by auto
      then show False using h [rule_format, of "i - unat s"] b i assms by auto
    qed
  next
    assume z: ?z
    show "\<forall>i. bit num (unat s + i) \<longrightarrow> (i < 64 - unat e \<longleftrightarrow> i < unat e - unat s)"
    proof (intro allI impI)
      fix i assume "bit num (unat s + i)"
      then have "\<not> (min (unat e) (unat s + (64 - unat e)) \<le> unat s + i \<and>
          unat s + i < max (unat e) (unat s + (64 - unat e)))"
        using z by blast
      then show "i < 64 - unat e \<longleftrightarrow> i < unat e - unat s" using assms by arith
    qed
  qed
  finally show ?thesis .
qed

theorem get_bits_field_iff_witness:
  "get_bits 0xff0000ff 0 24 \<noteq> take_bit 24 0xff0000ff \<and> get_bits 0x28 3 6 = take_bit 3 (drop_bit 3 0x28)"
proof -
  have "bit (0xff0000ff :: u64) 24" by simp
  then show ?thesis
    using get_bits_field_iff [of 0 24 "0xff0000ff"] by (auto simp: get_bits_test)
qed

end
