(* ===== verification/Addr.thy ===== *)
theory Addr
  imports Ferr_Prelude
begin

text \<open>
  Addresses (\<^verbatim>\<open>shared_lib/src/addr.rs\<close>): canonical virtual addresses and the indices
  of the four levels of page tables. Pointers are their address.
\<close>

section \<open>The code\<close>

type_synonym VirtAddr = u64
type_synonym PhysAddr = u64

definition ENTRY_COUNT :: u16 where "ENTRY_COUNT = 512"

definition VirtAddr_new :: "u64 \<Rightarrow> VirtAddr" where
  "VirtAddr_new addr = signed_drop_bit 16 (push_bit 16 addr)"

definition VirtAddr_new_checked :: "u64 \<Rightarrow> VirtAddr result" where
  "VirtAddr_new_checked addr =
     (let m = addr AND 0xffff800000000000
      in if m = 0 \<or> m = 0xffff800000000000 then Inr addr
         else if m = 0x0000800000000000 then Inr (VirtAddr_new addr)
         else Inl ''Virt addr not valid'')"

definition overflowing_add :: "u64 \<Rightarrow> u64 \<Rightarrow> u64 \<times> bool" where
  "overflowing_add a b = (a + b, 2 ^ 64 \<le> unat a + unat b)"

definition VirtAddr_offset :: "VirtAddr \<Rightarrow> u64 \<Rightarrow> VirtAddr result" where
  "VirtAddr_offset self off =
     (let (res, overflow) = overflowing_add self off
      in if overflow then Inl ''Virt addr overflow'' else Inr (VirtAddr_new res))"

definition VirtAddr_from_ptr :: "u64 \<Rightarrow> VirtAddr" where
  "VirtAddr_from_ptr ptr = VirtAddr_new ptr"

definition VirtAddr_zero :: VirtAddr where "VirtAddr_zero = 0"

definition p4_index :: "VirtAddr \<Rightarrow> u16" where
  "p4_index self = ucast (drop_bit 9 (drop_bit 9 (drop_bit 9 (drop_bit 12 self)))) mod ENTRY_COUNT"

definition p3_index :: "VirtAddr \<Rightarrow> u16" where
  "p3_index self = ucast (drop_bit 9 (drop_bit 9 (drop_bit 12 self))) mod ENTRY_COUNT"

definition p2_index :: "VirtAddr \<Rightarrow> u16" where
  "p2_index self = ucast (drop_bit 9 (drop_bit 12 self)) mod ENTRY_COUNT"

definition p1_index :: "VirtAddr \<Rightarrow> u16" where
  "p1_index self = ucast (drop_bit 12 self) mod ENTRY_COUNT"

definition get_page_offset :: "VirtAddr \<Rightarrow> u16" where
  "get_page_offset self = ucast (self AND 0xfff)"

definition VirtAddr_bitand :: "VirtAddr \<Rightarrow> VirtAddr \<Rightarrow> VirtAddr" where
  "VirtAddr_bitand self rhs = VirtAddr_new (self AND rhs)"

definition VirtAddr_add :: "VirtAddr \<Rightarrow> VirtAddr \<Rightarrow> VirtAddr" where
  "VirtAddr_add self rhs = VirtAddr_new (self + rhs)"

section \<open>Canonical addresses\<close>

text \<open>Bits 48 to 63 are copies of bit 47.\<close>

definition canonical :: "VirtAddr \<Rightarrow> bool" where
  "canonical v \<longleftrightarrow> (\<forall>i\<in>{48..<64}. bit v i = bit v 47)"

lemma bit_VirtAddr_new [bit_simps]:
  "bit (VirtAddr_new a) i \<longleftrightarrow> i < 64 \<and> bit a (min i 47)"
  by (auto simp: VirtAddr_new_def bit_signed_drop_bit_iff bit_push_bit_iff min_def dest: bit_imp_le_length)

lemma canonical_VirtAddr_new [simp, intro]: "canonical (VirtAddr_new a)"
  by (auto simp: canonical_def bit_simps)

lemma canonicalD: "canonical v \<Longrightarrow> 47 \<le> i \<Longrightarrow> i < 64 \<Longrightarrow> bit v i = bit v 47"
  by (cases "i = 47") (auto simp: canonical_def)

lemma VirtAddr_new_canonical [simp]:
  assumes "canonical v" shows "VirtAddr_new v = v"
proof (rule bit_word_eqI)
  fix i :: nat assume "i < LENGTH(64)"
  with canonicalD [OF assms, of i] show "bit (VirtAddr_new v) i = bit v i"
    by (simp add: bit_simps min_def)
qed

lemma VirtAddr_new_iff: "VirtAddr_new v = v \<longleftrightarrow> canonical v"
  by (metis VirtAddr_new_canonical canonical_VirtAddr_new)

lemma bit_high_mask: "bit (0xffff800000000000 :: int) i \<longleftrightarrow> 47 \<le> i \<and> i < 64"
proof -
  have "(0xffff800000000000 :: int) = push_bit 47 (mask 17)"
    by (simp add: mask_eq_exp_minus_1)
  then show ?thesis by (simp only: bit_push_bit_iff bit_mask_iff) auto
qed

lemma bit_sign_mask: "bit (0x0000800000000000 :: int) i \<longleftrightarrow> i = 47"
proof -
  have "(0x0000800000000000 :: int) = push_bit 47 (mask 1)" by simp
  then show ?thesis by (simp only: bit_push_bit_iff bit_mask_iff) auto
qed

lemmas bit_mask_simps = bit_high_mask bit_sign_mask

lemma and_high_mask_eq_0: "a AND 0xffff800000000000 = 0 \<longleftrightarrow> (\<forall>i\<in>{47..<64}. \<not> bit a i)" for a :: u64
  by (auto simp: word_bits_iff bit_and_iff bit_mask_simps)

lemma and_high_mask_eq_self:
  "a AND 0xffff800000000000 = 0xffff800000000000 \<longleftrightarrow> (\<forall>i\<in>{47..<64}. bit a i)" for a :: u64
  by (auto simp: word_bits_iff bit_and_iff bit_mask_simps)

lemma and_high_mask_eq_sign:
  "a AND 0xffff800000000000 = 0x0000800000000000 \<longleftrightarrow> bit a 47 \<and> (\<forall>i\<in>{48..<64}. \<not> bit a i)" for a :: u64
  by (auto simp: word_bits_iff bit_and_iff bit_mask_simps dest: spec [of _ 47])

lemma ball_47: "(\<forall>i\<in>{47..<64}. P i) \<longleftrightarrow> P 47 \<and> (\<forall>i\<in>{48..<64::nat}. P i)"
proof -
  have "{47..<64} = insert 47 {48..<64::nat}" by auto
  then show ?thesis by simp
qed

lemma canonical_iff:
  "canonical a \<longleftrightarrow> a AND 0xffff800000000000 = 0 \<or> a AND 0xffff800000000000 = 0xffff800000000000"
  unfolding and_high_mask_eq_0 and_high_mask_eq_self ball_47
  by (auto simp: canonical_def)

lemma VirtAddr_new_checked_iff:
  "VirtAddr_new_checked a = Inr v \<longleftrightarrow>
     (canonical a \<or> (\<forall>i\<in>{48..<64}. \<not> bit a i)) \<and> v = VirtAddr_new a"
proof (cases "canonical a")
  case True
  then show ?thesis
    by (auto simp: VirtAddr_new_checked_def canonical_iff Let_def)
next
  case False
  moreover have "a AND 0xffff800000000000 = 0x0000800000000000
    \<longleftrightarrow> (\<forall>i\<in>{48..<64}. \<not> bit a i)"
    using False unfolding and_high_mask_eq_sign canonical_iff and_high_mask_eq_0 ball_47 by auto
  ultimately show ?thesis
    by (auto simp: VirtAddr_new_checked_def canonical_iff Let_def)
qed

lemma bit_mod_entry_count:
  "bit (x mod ENTRY_COUNT) i \<longleftrightarrow> i < 9 \<and> bit x i" 
proof -
  have "x mod ENTRY_COUNT = take_bit 9 x" by (simp add: take_bit_eq_mod ENTRY_COUNT_def)
  then show ?thesis by (simp add: bit_simps)
qed
lemma bit_0xfff: "bit (0xfff :: int) i \<longleftrightarrow> i < 12"
proof -
  have "(0xfff :: int) = mask 12" by (simp add: mask_eq_exp_minus_1)
  then show ?thesis by (simp only: bit_mask_iff) auto
qed

lemmas bit_index_simps [bit_simps] = bit_mod_entry_count bit_0xfff

lemma bit_p4_index [bit_simps]: "bit (p4_index v) i \<longleftrightarrow> i < 9 \<and> bit v (39 + i)"
  by (auto simp: p4_index_def bit_simps)
lemma bit_p3_index [bit_simps]: "bit (p3_index v) i \<longleftrightarrow> i < 9 \<and> bit v (30 + i)"
  by (auto simp: p3_index_def bit_simps)
lemma bit_p2_index [bit_simps]: "bit (p2_index v) i \<longleftrightarrow> i < 9 \<and> bit v (21 + i)"
  by (auto simp: p2_index_def bit_simps)
lemma bit_p1_index [bit_simps]: "bit (p1_index v) i \<longleftrightarrow> i < 9 \<and> bit v (12 + i)"
  by (auto simp: p1_index_def bit_simps)
lemma bit_get_page_offset [bit_simps]: "bit (get_page_offset v) i \<longleftrightarrow> i < 12 \<and> bit v i"
  by (auto simp: get_page_offset_def bit_simps)

section \<open>Indices\<close>

text \<open>The address with given indices and page offset, as the processor composes it.\<close>

definition vaddr_compose :: "u16 \<Rightarrow> u16 \<Rightarrow> u16 \<Rightarrow> u16 \<Rightarrow> u16 \<Rightarrow> VirtAddr" where
  "vaddr_compose i4 i3 i2 i1 off =
     VirtAddr_new (push_bit 39 (ucast i4) OR push_bit 30 (ucast i3) OR push_bit 21 (ucast i2)
       OR push_bit 12 (ucast i1) OR ucast off)"

lemma vaddr_decompose:
  assumes "canonical v"
  shows "vaddr_compose (p4_index v) (p3_index v) (p2_index v) (p1_index v) (get_page_offset v) = v"
proof (rule bit_word_eqI)
  fix i :: nat assume "i < LENGTH(64)"
  then have "i < 64" by simp
  then consider "i < 12" | "12 \<le> i" "i < 21" | "21 \<le> i" "i < 30" | "30 \<le> i" "i < 39"
    | "39 \<le> i" "i < 48" | "48 \<le> i" "bit v i = bit v 47"
    using canonicalD [OF assms, of i] by linarith
  then show "bit (vaddr_compose (p4_index v) (p3_index v) (p2_index v) (p1_index v)
      (get_page_offset v)) i = bit v i"
    by cases (use \<open>i < 64\<close> in \<open>auto simp: vaddr_compose_def bit_simps min_def\<close>)
qed

lemma vaddr_compose_indices:
  assumes "i4 < ENTRY_COUNT" "i3 < ENTRY_COUNT" "i2 < ENTRY_COUNT" "i1 < ENTRY_COUNT" "off < 4096"
  defines "v \<equiv> vaddr_compose i4 i3 i2 i1 off"
  shows "p4_index v = i4" "p3_index v = i3" "p2_index v = i2" "p1_index v = i1" "get_page_offset v = off"
proof -
  have small: "bit i k \<Longrightarrow> k < 9" if "i < ENTRY_COUNT" for i k
  proof -
    have "take_bit 9 i = i"
      using that by (simp add: ENTRY_COUNT_def word_unat_eq_iff unsigned_take_bit_eq take_bit_nat_eq_self word_less_nat_alt)
    then show "bit i k \<Longrightarrow> k < 9" by (metis bit_take_bit_iff)
  qed
  have off: "bit off k \<Longrightarrow> k < 12" for k
  proof -
    have "take_bit 12 off = off"
      using assms(5) by (simp add: word_unat_eq_iff unsigned_take_bit_eq take_bit_nat_eq_self word_less_nat_alt)
    then show "bit off k \<Longrightarrow> k < 12" by (metis bit_take_bit_iff)
  qed
  have bits: "bit v k = (if k < 12 then bit off k else if k < 21 then bit i1 (k - 12)
      else if k < 30 then bit i2 (k - 21) else if k < 39 then bit i3 (k - 30) else bit i4 (k - 39))"
    if "k < 48" for k
  proof -
    have "min k 47 = k" using that by simp
    then show ?thesis
      using that small [OF assms(1), of "k - 39"] small [OF assms(2), of "k - 30"]
        small [OF assms(3), of "k - 21"] small [OF assms(4), of "k - 12"] off [of k]
      by (auto simp: v_def vaddr_compose_def bit_simps)
  qed
  show "p4_index v = i4" "p3_index v = i3" "p2_index v = i2" "p1_index v = i1" "get_page_offset v = off"
    using small [OF assms(1)] small [OF assms(2)] small [OF assms(3)] small [OF assms(4)] off
    by (auto simp: word_bits_iff bit_simps bits)
qed

section \<open>The tests of the source\<close>

lemma check_sign_extension:
  "VirtAddr_new 0xf000000000000023 = 0x23" "VirtAddr_new 0xffff800f00000023 = 0xffff800f00000023"
  by (simp_all add: VirtAddr_new_def)

lemma check_ctr_new_checked:
  "VirtAddr_new_checked 0x222 = Inr 0x222"
  "VirtAddr_new_checked 0xffff800f00000023 = Inr 0xffff800f00000023"
  "VirtAddr_new_checked 0x0000800007000000 = Inr 0xffff800007000000"
  "\<exists>e. VirtAddr_new_checked 0x1020000000000002 = Inl e"
  by (simp_all add: VirtAddr_new_checked_def VirtAddr_new_def)

section \<open>Properties\<close>

text \<open>
  \<open>new_checked\<close> does what its documentation says: it succeeds exactly if bits
  48 to 63 are copies of bit 47 or all zero, the result is then the sign extension of the argument,
  canonical, and equal to the argument in the lower 48 bits.
\<close>

theorem new_checked_spec:
  "(\<exists>v. VirtAddr_new_checked a = Inr v) = (canonical a \<or> drop_bit 48 a = 0) \<and>
   (VirtAddr_new_checked a = Inr v \<longrightarrow> canonical v \<and> take_bit 48 v = take_bit 48 a \<and> v = VirtAddr_new a)"
proof -
  have "drop_bit 48 a = 0 \<longleftrightarrow> (\<forall>i\<in>{48..<64}. \<not> bit a i)"
  proof
    assume z: "drop_bit 48 a = 0"
    show "\<forall>i\<in>{48..<64}. \<not> bit a i"
    proof
      fix i :: nat assume "i \<in> {48..<64}"
      then show "\<not> bit a i" using arg_cong [OF z, of "\<lambda>w. bit w (i - 48)"] by (simp add: bit_simps)
    qed
  next
    assume z: "\<forall>i\<in>{48..<64}. \<not> bit a i"
    show "drop_bit 48 a = 0"
    proof (rule bit_word_eqI)
      fix i :: nat assume "i < LENGTH(64)"
      then show "bit (drop_bit 48 a) i = bit 0 i"
        using z [rule_format, of "48 + i"] bit_imp_le_length [of a "48 + i"] by (auto simp: bit_simps)
    qed
  qed
  moreover have "take_bit 48 (VirtAddr_new a) = take_bit 48 a"
    by (rule bit_word_eqI) (auto simp: bit_simps min_def)
  ultimately show ?thesis by (auto simp: VirtAddr_new_checked_iff)
qed

theorem new_checked_spec_witness:
  "canonical 0xffff800007000000 \<and> take_bit 48 (0xffff800007000000 :: u64) = take_bit 48 0x0000800007000000"
  using new_checked_spec [of "0x0000800007000000" "0xffff800007000000"]
  by (simp add: check_ctr_new_checked)

text \<open>
  C20. The four indices and the page offset determine a canonical address, and every choice
  of indices below 512 and offset below 4096 is the decomposition of the address composed of them.
\<close>

theorem vaddr_indices_roundtrip:
  "(canonical v \<longrightarrow>
      vaddr_compose (p4_index v) (p3_index v) (p2_index v) (p1_index v) (get_page_offset v) = v) \<and>
   (i4 < ENTRY_COUNT \<and> i3 < ENTRY_COUNT \<and> i2 < ENTRY_COUNT \<and> i1 < ENTRY_COUNT \<and> off < 4096 \<longrightarrow>
      (let w = vaddr_compose i4 i3 i2 i1 off
       in (p4_index w, p3_index w, p2_index w, p1_index w, get_page_offset w) = (i4, i3, i2, i1, off)))"
  using vaddr_decompose [of v] vaddr_compose_indices [of i4 i3 i2 i1 off] by (simp add: Let_def)

theorem vaddr_indices_roundtrip_witness:
  "vaddr_compose (p4_index 0xffff800007654321) (p3_index 0xffff800007654321) (p2_index 0xffff800007654321)
      (p1_index 0xffff800007654321) (get_page_offset 0xffff800007654321) = 0xffff800007654321 \<and>
   p4_index (vaddr_compose 511 2 3 4 5) = 511"
proof -
  have "canonical 0xffff800007654321" by (simp add: canonical_iff)
  then show ?thesis
    using vaddr_indices_roundtrip [of "0xffff800007654321" 511 2 3 4 5] by (simp add: ENTRY_COUNT_def Let_def)
qed

end
