(* ===== verification/Frame_Allocator.thy ===== *)
theory Frame_Allocator
  imports Addr
begin

text \<open>
  The physical frame allocator (\<^verbatim>\<open>shared_lib/src/frame_allocator.rs\<close>): a counter into
  the sequence of frames of the free regions of the memory map. The pointer to the memory map is the
  map itself, which nothing writes after the loader has filled it.
\<close>

section \<open>The code\<close>

datatype MemoryType = Free | Reserved | InUse | Acpi1_3 | AcpiReclaim | Acpi1_4

record MemoryRegion =
  region_ty :: MemoryType
  region_addr :: u64
  page_count :: usize

definition MAX_MEMORY_MAP_SIZE :: nat where "MAX_MEMORY_MAP_SIZE = 256"

text \<open>\<open>size_of::<MemoryRegion>()\<close> is 24: two 8-byte fields and the tag, padded.\<close>

definition MEMORY_MAP_PAGES :: nat where
  "MEMORY_MAP_PAGES = 1 + (24 * MAX_MEMORY_MAP_SIZE) div 4096"

record MemoryMap =
  entries :: "MemoryRegion list"
  next_free_entry_idx :: u64

definition next_free_entry_index :: "MemoryMap \<Rightarrow> nat" where
  "next_free_entry_index self = unat (next_free_entry_idx self)"

definition MemoryMap_deref :: "MemoryMap \<Rightarrow> MemoryRegion list outcome" where
  "MemoryMap_deref self =
     (if next_free_entry_index self \<le> length (entries self)
      then Done (take (next_free_entry_index self) (entries self))
      else Panic ''range end index out of range'')"

text \<open>The field \<open>next\<close> of the source is \<open>next_frame\<close>.\<close>

record FrameAllocator =
  memory_map :: MemoryMap
  next_frame :: usize
  mapping_offset :: u64

definition FrameAllocator_new :: "MemoryMap \<Rightarrow> u64 \<Rightarrow> usize \<Rightarrow> FrameAllocator" where
  "FrameAllocator_new mm off next_free_frame =
     \<lparr>memory_map = mm, next_frame = next_free_frame, mapping_offset = off\<rparr>"

text \<open>The elements of \<open>(start..end).step_by(4096)\<close>.\<close>

definition step_by_4096 :: "u64 \<Rightarrow> u64 \<Rightarrow> u64 list" where
  "step_by_4096 start end =
     map (\<lambda>k. start + 4096 * of_nat k) [0..<(unat end - unat start + 4095) div 4096]"

definition region_frames :: "MemoryRegion \<Rightarrow> u64 list" where
  "region_frames r = step_by_4096 (region_addr r) (region_addr r + 4096 * page_count r)"

definition usable_frames :: "FrameAllocator \<Rightarrow> u64 list outcome" where
  "usable_frames self =
     bindO (MemoryMap_deref (memory_map self)) (\<lambda>regions.
       Done (concat (map region_frames (filter (\<lambda>r. region_ty r = Free) regions))))"

definition allocate_frame :: "FrameAllocator \<Rightarrow> (u64 option \<times> FrameAllocator) outcome" where
  "allocate_frame self =
     bindO (usable_frames self) (\<lambda>frames.
       let n = unat (next_frame self);
           frame = (if n < length frames then Some (frames ! n) else None)
       in Done (frame, self\<lparr>next_frame := next_frame self + 1\<rparr>))"

section \<open>Well-formed memory maps\<close>

definition region_ok :: "MemoryRegion \<Rightarrow> bool" where
  "region_ok r \<longleftrightarrow> unat (region_addr r) mod 4096 = 0 \<and> unat (region_addr r) + 4096 * unat (page_count r) \<le> 2 ^ 52"

definition region_pages :: "MemoryRegion \<Rightarrow> nat set" where
  "region_pages r = {unat (region_addr r) div 4096 ..< unat (region_addr r) div 4096 + unat (page_count r)}"

definition free_regions :: "MemoryMap \<Rightarrow> MemoryRegion list" where
  "free_regions mm = filter (\<lambda>r. region_ty r = Free) (take (next_free_entry_index mm) (entries mm))"

fun regions_disjoint :: "MemoryRegion list \<Rightarrow> bool" where
  "regions_disjoint [] \<longleftrightarrow> True"
| "regions_disjoint (r # rs) \<longleftrightarrow>
     (\<forall>r'\<in>set rs. region_pages r \<inter> region_pages r' = {}) \<and> regions_disjoint rs"

definition memory_map_ok :: "MemoryMap \<Rightarrow> bool" where
  "memory_map_ok mm \<longleftrightarrow> next_free_entry_index mm \<le> length (entries mm) \<and>
     (\<forall>r\<in>set (free_regions mm). region_ok r) \<and> regions_disjoint (free_regions mm)"

definition map_frames :: "MemoryMap \<Rightarrow> u64 list" where
  "map_frames mm = concat (map region_frames (free_regions mm))"

lemma usable_frames_ok:
  "memory_map_ok (memory_map fa) \<Longrightarrow> usable_frames fa = Done (map_frames (memory_map fa))"
  by (simp add: usable_frames_def MemoryMap_deref_def memory_map_ok_def map_frames_def free_regions_def)

lemma region_end:
  assumes "region_ok r"
  shows "unat (region_addr r + 4096 * page_count r) = unat (region_addr r) + 4096 * unat (page_count r)"
proof -
  have "4096 * unat (page_count r) < 2 ^ 64" "unat (region_addr r) + 4096 * unat (page_count r) < 2 ^ 64"
    using assms by (auto simp: region_ok_def)
  then show ?thesis by (simp add: unat_word_ariths)
qed

lemma length_region_frames: "region_ok r \<Longrightarrow> length (region_frames r) = unat (page_count r)"
  by (simp add: region_frames_def step_by_4096_def region_end)

lemma unat_region_frame:
  assumes "region_ok r" "k < unat (page_count r)"
  shows "unat (region_frames r ! k) = unat (region_addr r) + 4096 * k"
proof -
  have "4096 * k < 2 ^ 64" "k < 2 ^ 64" "unat (region_addr r) + 4096 * k < 2 ^ 64"
    using assms by (auto simp: region_ok_def)
  moreover have "unat (of_nat k :: u64) = k" using calculation by (simp add: unat_of_nat)
  ultimately have "unat (region_addr r + 4096 * of_nat k) = unat (region_addr r) + 4096 * k"
    by (simp add: unat_word_ariths)
  with assms show ?thesis
    by (simp add: region_frames_def step_by_4096_def region_end)
qed

definition frame_page :: "u64 \<Rightarrow> nat" where "frame_page f = unat f div 4096"

lemma map_frame_page_region:
  assumes "region_ok r"
  shows "map frame_page (region_frames r) =
    map (\<lambda>k. unat (region_addr r) div 4096 + k) [0..<unat (page_count r)]"
  using assms
  by (intro nth_equalityI) (simp_all add: length_region_frames unat_region_frame frame_page_def)

lemma set_frame_page_region: "region_ok r \<Longrightarrow> frame_page ` set (region_frames r) = region_pages r"
proof -
  assume ok: "region_ok r"
  have "frame_page ` set (region_frames r) = set (map frame_page (region_frames r))" by simp
  also have "\<dots> = region_pages r"
    by (auto simp: map_frame_page_region [OF ok] region_pages_def image_iff intro!: exI [of _ "_ - _"])
  finally show ?thesis .
qed

lemma distinct_frame_pages:
  "\<forall>r\<in>set rs. region_ok r \<Longrightarrow> regions_disjoint rs \<Longrightarrow> distinct (map frame_page (concat (map region_frames rs)))"
proof (induction rs)
  case (Cons r rs)
  have "frame_page ` set (region_frames r) \<inter> frame_page ` (\<Union>x\<in>set rs. set (region_frames x)) = {}"
    using Cons.prems by (auto simp: image_UN set_frame_page_region)
  moreover have "distinct (map frame_page (region_frames r))"
    using Cons.prems by (simp add: map_frame_page_region distinct_map inj_on_def)
  ultimately show ?case using Cons by simp
qed simp

lemma map_frames_aligned:
  assumes "memory_map_ok mm" "f \<in> set (map_frames mm)"
  shows "unat f mod 4096 = 0 \<and> unat f + 4096 \<le> 2 ^ 52"
proof -
  obtain r where r: "region_ok r" "f \<in> set (region_frames r)"
    using assms by (auto simp: map_frames_def memory_map_ok_def)
  then obtain k where k: "k < unat (page_count r)" "f = region_frames r ! k"
    by (auto simp: in_set_conv_nth length_region_frames)
  have "unat f = unat (region_addr r) + 4096 * k" using unat_region_frame [OF r(1) k(1)] k(2) by simp
  moreover have "4096 * k + 4096 \<le> 4096 * unat (page_count r)" using k(1) by simp
  moreover have "(unat (region_addr r) + 4096 * k) mod 4096 = 0"
    using r(1) by (simp add: region_ok_def)
  ultimately show ?thesis using r(1) by (simp add: region_ok_def)
qed

lemma map_frames_distinct: "memory_map_ok mm \<Longrightarrow> distinct (map frame_page (map_frames mm))"
  unfolding map_frames_def memory_map_ok_def by (blast intro: distinct_frame_pages)

lemma length_map_frames:
  assumes "memory_map_ok mm"
  shows "length (map_frames mm) \<le> 2 ^ 40"
proof -
  have "frame_page f < 2 ^ 40" if "f \<in> set (map_frames mm)" for f
    using map_frames_aligned [OF assms that] by (simp add: frame_page_def less_mult_imp_div_less)
  then have "set (map frame_page (map_frames mm)) \<subseteq> {..<2 ^ 40}" by auto
  then have "card (set (map frame_page (map_frames mm))) \<le> 2 ^ 40"
    using card_mono [of "{..<2 ^ 40 :: nat}"] by simp
  then show ?thesis
    using distinct_card [OF map_frames_distinct [OF assms]] by simp
qed

text \<open>The frames an allocator can still hand out, in order.\<close>

definition remaining :: "FrameAllocator \<Rightarrow> u64 list" where
  "remaining fa = drop (unat (next_frame fa)) (map_frames (memory_map fa))"

lemma allocate_frame_ok:
  assumes ok: "memory_map_ok (memory_map fa)"
  shows "remaining fa = f # fs \<Longrightarrow>
      \<exists>fa'. allocate_frame fa = Done (Some f, fa') \<and> remaining fa' = fs \<and>
        memory_map fa' = memory_map fa \<and> mapping_offset fa' = mapping_offset fa"
    and "remaining fa = [] \<Longrightarrow> \<exists>fa'. allocate_frame fa = Done (None, fa') \<and>
        memory_map fa' = memory_map fa \<and> mapping_offset fa' = mapping_offset fa"
proof -
  let ?fr = "map_frames (memory_map fa)" and ?n = "unat (next_frame fa)"
  { assume rem: "remaining fa = f # fs"
    then have n: "?n < length ?fr" by (metis drop_all list.simps(3) not_le remaining_def)
    then have "f = ?fr ! ?n" "fs = drop (Suc ?n) ?fr"
      using rem by (simp_all add: remaining_def Cons_nth_drop_Suc [symmetric])
    moreover have "unat (next_frame fa + 1) = Suc ?n"
      using n length_map_frames [OF ok] by (simp add: unat_word_ariths)
    ultimately show "\<exists>fa'. allocate_frame fa = Done (Some f, fa') \<and> remaining fa' = fs \<and>
        memory_map fa' = memory_map fa \<and> mapping_offset fa' = mapping_offset fa"
      using n by (simp add: allocate_frame_def usable_frames_ok [OF ok] remaining_def) }
  { assume "remaining fa = []"
    then show "\<exists>fa'. allocate_frame fa = Done (None, fa') \<and>
        memory_map fa' = memory_map fa \<and> mapping_offset fa' = mapping_offset fa"
      by (simp add: allocate_frame_def usable_frames_ok [OF ok] remaining_def) }
qed

section \<open>Sequences of allocations\<close>

text \<open>\<open>n\<close> calls of \<open>allocate_frame\<close>, each expected to succeed.\<close>

fun allocate_frames :: "nat \<Rightarrow> FrameAllocator \<Rightarrow> (u64 list \<times> FrameAllocator) outcome" where
  "allocate_frames 0 fa = Done ([], fa)"
| "allocate_frames (Suc n) fa =
     bindO (allocate_frame fa) (\<lambda>(frame, fa).
     bindO (expect_some ''Out of memory'' frame) (\<lambda>f.
     bindO (allocate_frames n fa) (\<lambda>(fs, fa). Done (f # fs, fa))))"

lemma allocate_frames_take:
  "memory_map_ok (memory_map fa) \<Longrightarrow> n \<le> length (remaining fa) \<Longrightarrow>
     \<exists>fa'. allocate_frames n fa = Done (take n (remaining fa), fa') \<and> remaining fa' = drop n (remaining fa)"
proof (induction n arbitrary: fa)
  case (Suc n)
  then obtain f fs where rem: "remaining fa = f # fs" by (cases "remaining fa") auto
  obtain fa' where fa': "allocate_frame fa = Done (Some f, fa')" "remaining fa' = fs"
      "memory_map fa' = memory_map fa"
    using allocate_frame_ok(1) [OF Suc.prems(1) rem] by blast
  with Suc.IH [of fa'] Suc.prems rem show ?case by auto
qed auto

lemma remaining_in_free_region:
  assumes "memory_map_ok (memory_map fa)" "f \<in> set (remaining fa)"
  shows "\<exists>r\<in>set (entries (memory_map fa)). region_ty r = Free \<and> frame_page f \<in> region_pages r"
proof -
  have "f \<in> set (map_frames (memory_map fa))" using assms(2) by (auto simp: remaining_def dest: in_set_dropD)
  then obtain r where r: "r \<in> set (free_regions (memory_map fa))" "f \<in> set (region_frames r)"
    by (auto simp: map_frames_def)
  then have "region_ok r" using assms(1) by (auto simp: memory_map_ok_def)
  with r have "frame_page f \<in> region_pages r" using set_frame_page_region by blast
  with r(1) show ?thesis by (auto simp: free_regions_def dest: in_set_takeD)
qed

text \<open>
  C5. With a memory map whose free regions are page aligned and disjoint, the allocator
  hands out as many frames as it has left before it fails, all page aligned, pairwise
  different and inside free regions: no physical page is given away twice.
\<close>

theorem frames_handed_out_once:
  assumes ok: "memory_map_ok (memory_map fa)" and n: "n \<le> length (remaining fa)"
  shows "\<exists>fs fa'. allocate_frames n fa = Done (fs, fa') \<and> length fs = n \<and> distinct (map frame_page fs) \<and>
    (\<forall>f\<in>set fs. f mod 4096 = 0 \<and>
       (\<exists>r\<in>set (entries (memory_map fa)). region_ty r = Free \<and> frame_page f \<in> region_pages r)) \<and>
    length (remaining fa') = length (remaining fa) - n"
proof -
  have "distinct (map frame_page (take n (remaining fa)))"
    using map_frames_distinct [OF ok] by (simp add: remaining_def drop_map [symmetric] take_map [symmetric])
  moreover have "f mod 4096 = 0" if "f \<in> set (take n (remaining fa))" for f
  proof -
    have "f \<in> set (map_frames (memory_map fa))"
      using that by (auto simp: remaining_def dest: in_set_takeD in_set_dropD)
    from map_frames_aligned [OF ok this] show ?thesis by (simp add: word_unat_eq_iff unat_mod)
  qed
  ultimately show ?thesis
    using allocate_frames_take [OF ok n] remaining_in_free_region [OF ok in_set_takeD] n by auto
qed

theorem frames_handed_out_once_witness:
  "\<exists>fs fa'. allocate_frames 3 (FrameAllocator_new
      \<lparr>entries = [\<lparr>region_ty = Reserved, region_addr = 0, page_count = 1\<rparr>,
                  \<lparr>region_ty = Free, region_addr = 0x1000, page_count = 2\<rparr>,
                  \<lparr>region_ty = Free, region_addr = 0x9000, page_count = 3\<rparr>], next_free_entry_idx = 3\<rparr> 0 1) =
      Done (fs, fa') \<and> length fs = 3 \<and> distinct (map frame_page fs)"
    (is "\<exists>fs fa'. allocate_frames 3 ?fa = _ \<and> _ \<and> _")
proof -
  have ok: "memory_map_ok (memory_map ?fa)"
    by (simp add: FrameAllocator_new_def memory_map_ok_def next_free_entry_index_def free_regions_def
        region_ok_def region_pages_def)
  have "remaining ?fa = [0x2000, 0x9000, 0xa000, 0xb000]"
    by (simp add: FrameAllocator_new_def remaining_def map_frames_def free_regions_def
        next_free_entry_index_def region_frames_def step_by_4096_def upt_rec)
  then have "3 \<le> length (remaining ?fa)" by simp
  from frames_handed_out_once [OF ok this] show ?thesis by blast
qed

end
