(* ===== verification/Page_Table.thy ===== *)
theory Page_Table
  imports Frame_Allocator
begin

text \<open>
  Page tables (\<^verbatim>\<open>shared_lib/src/page_table.rs\<close>). Memory is a store of quadwords
  indexed by the address the code dereferences; a table is the 512 quadwords at its address and
  a reference to an entry is the entry's address. The provider of new tables, a trait in the
  source, is an argument of the mapping functions: a function on memory and its own state.

  The second part is the vocabulary of the proofs: index paths, the table a path leads to, the
  translation of a full path, and the invariant that the tables form a tree.
\<close>

section \<open>Entries and flags\<close>

type_synonym PageTableEntry = u64
type_synonym PageTableFlags = u64

definition PRESENT :: PageTableFlags where "PRESENT = 1"
definition WRITABLE :: PageTableFlags where "WRITABLE = 2"

definition PageTableFlags_all :: PageTableFlags where
  "PageTableFlags_all = 0xfff0000000000fff"

definition from_bits_truncate :: "u64 \<Rightarrow> PageTableFlags" where
  "from_bits_truncate bits = bits AND PageTableFlags_all"

definition contains :: "PageTableFlags \<Rightarrow> PageTableFlags \<Rightarrow> bool" where
  "contains self other \<longleftrightarrow> self AND other = other"

definition PageTableEntry_new :: PageTableEntry where "PageTableEntry_new = 0"

definition set_addr :: "u64 \<Rightarrow> PageTableFlags \<Rightarrow> PageTableEntry" where
  "set_addr addr flags = addr OR flags"

definition flags :: "PageTableEntry \<Rightarrow> PageTableFlags" where
  "flags self = from_bits_truncate self"

definition is_present :: "PageTableEntry \<Rightarrow> bool" where
  "is_present self \<longleftrightarrow> contains (flags self) PRESENT"

definition pte_addr :: "PageTableEntry \<Rightarrow> u64" where
  "pte_addr self = self AND 0x000ffffffffff000"

section \<open>Tables in memory\<close>

text \<open>The memory, and the operands of the \<open>invlpg\<close> instructions executed so far.\<close>

record machine =
  mem :: "u64 \<Rightarrow> u64"
  invlpgs :: "u64 list"

definition PageTable_index :: "u64 \<Rightarrow> u16 \<Rightarrow> u64 outcome" where
  "PageTable_index table index =
     (if index < ENTRY_COUNT then Done (table + 8 * ucast index)
      else Panic ''index out of bounds'')"

definition PageTable_clear :: "u64 \<Rightarrow> (u64 \<Rightarrow> u64) \<Rightarrow> (u64 \<Rightarrow> u64)" where
  "PageTable_clear table m =
     fold (\<lambda>i m. m(table + 8 * of_nat i := set_addr 0 0)) [0..<unat ENTRY_COUNT] m"

type_synonym 'a pt_alloc = "(u64 \<Rightarrow> u64) \<Rightarrow> 'a \<Rightarrow> (u64 result \<times> (u64 \<Rightarrow> u64) \<times> 'a) outcome"

definition create_next_table ::
    "u64 \<Rightarrow> 'a pt_alloc \<Rightarrow> u64 \<Rightarrow> (u64 \<Rightarrow> u64) \<Rightarrow> 'a \<Rightarrow> (u64 result \<times> (u64 \<Rightarrow> u64) \<times> 'a) outcome" where
  "create_next_table entry alloc offset m a =
     (if contains (flags (m entry)) PRESENT then Done (Inr (pte_addr (m entry) + offset), m, a)
      else bindO (alloc m a) (\<lambda>(r, m, a).
        case r of
          Inl e \<Rightarrow> Done (Inl e, m, a)
        | Inr new_table \<Rightarrow>
            Done (Inr new_table, m(entry := set_addr (new_table - offset) (PRESENT OR WRITABLE)), a)))"

datatype MappingMode = CheckFrameIsFree | Remapping

text \<open>The end of \<open>map_address_impl\<close>, from the level-1 entry on.\<close>

definition map_l1_entry ::
    "u64 \<Rightarrow> u64 \<Rightarrow> MappingMode \<Rightarrow> machine \<Rightarrow> unit result \<times> machine" where
  "map_l1_entry l1_entry phys mode s =
     (if contains (flags (mem s l1_entry)) PRESENT then
        (if pte_addr (mem s l1_entry) = phys then (Inr (), s)
         else case mode of
           CheckFrameIsFree \<Rightarrow> (Inl ''this virtual address already mapped to another frame'', s)
         | Remapping \<Rightarrow>
             (Inr (), s\<lparr>mem := (mem s)(l1_entry := set_addr phys (PRESENT OR WRITABLE)),
                        invlpgs := invlpgs s @ [phys]\<rparr>))
      else
        (Inr (), s\<lparr>mem := (mem s)(l1_entry := set_addr phys (PRESENT OR WRITABLE)),
                   invlpgs := invlpgs s @ [phys]\<rparr>))"

definition map_address_impl ::
    "u64 \<Rightarrow> VirtAddr \<Rightarrow> u64 \<Rightarrow> 'a pt_alloc \<Rightarrow> MappingMode \<Rightarrow> u64 \<Rightarrow> machine \<Rightarrow> 'a
      \<Rightarrow> (unit result \<times> machine \<times> 'a) outcome" where
  "map_address_impl l4 virt phys alloc mode offset s a =
     (if virt mod 4096 \<noteq> 0 then Done (Inl ''Virtual address must be aligned!'', s, a)
      else if phys mod 4096 \<noteq> 0 then Done (Inl ''Physical address must be aligned!'', s, a)
      else
        bindO (PageTable_index l4 (p4_index virt)) (\<lambda>e4.
        bindO (create_next_table e4 alloc offset (mem s) a) (\<lambda>(r, m, a). case r of
          Inl e \<Rightarrow> Done (Inl e, s\<lparr>mem := m\<rparr>, a)
        | Inr l3 \<Rightarrow>
        bindO (PageTable_index l3 (p3_index virt)) (\<lambda>e3.
        bindO (create_next_table e3 alloc offset m a) (\<lambda>(r, m, a). case r of
          Inl e \<Rightarrow> Done (Inl e, s\<lparr>mem := m\<rparr>, a)
        | Inr l2 \<Rightarrow>
        bindO (PageTable_index l2 (p2_index virt)) (\<lambda>e2.
        bindO (create_next_table e2 alloc offset m a) (\<lambda>(r, m, a). case r of
          Inl e \<Rightarrow> Done (Inl e, s\<lparr>mem := m\<rparr>, a)
        | Inr l1 \<Rightarrow>
        bindO (PageTable_index l1 (p1_index virt)) (\<lambda>e1.
          let (r, s) = map_l1_entry e1 phys mode (s\<lparr>mem := m\<rparr>) in Done (r, s, a)))))))))"

definition map_address where
  "map_address l4 virt phys alloc = map_address_impl l4 virt phys alloc CheckFrameIsFree 0"

definition remap_address where
  "remap_address l4 virt phys alloc = map_address_impl l4 virt phys alloc Remapping 0"

definition map_address_with_offset where
  "map_address_with_offset l4 virt phys alloc offset =
     map_address_impl l4 virt phys alloc CheckFrameIsFree offset"

definition get_physical_address :: "(u64 \<Rightarrow> u64) \<Rightarrow> u64 \<Rightarrow> VirtAddr \<Rightarrow> u64 option outcome" where
  "get_physical_address m l4 virt =
     bindO (PageTable_index l4 (p4_index virt)) (\<lambda>e4.
     if \<not> contains (flags (m e4)) PRESENT then Done None else
     bindO (PageTable_index (pte_addr (m e4)) (p3_index virt)) (\<lambda>e3.
     if \<not> contains (flags (m e3)) PRESENT then Done None else
     bindO (PageTable_index (pte_addr (m e3)) (p2_index virt)) (\<lambda>e2.
     if \<not> contains (flags (m e2)) PRESENT then Done None else
     bindO (PageTable_index (pte_addr (m e2)) (p1_index virt)) (\<lambda>e1.
     if \<not> contains (flags (m e1)) PRESENT then Done None else
     Done (Some (pte_addr (m e1)))))))"

definition align_down :: "VirtAddr \<Rightarrow> VirtAddr" where
  "align_down val = VirtAddr_bitand val (VirtAddr_new 0xfffffffffffff000)"

definition align_down_u64 :: "u64 \<Rightarrow> u64" where
  "align_down_u64 val = val AND 0xfffffffffffff000"

definition allocate_page_table :: "FrameAllocator pt_alloc" where
  "allocate_page_table m self =
     bindO (allocate_frame self) (\<lambda>(frame, self).
     bindO (expect_some ''Out of memory - failed to allocate frame'' frame) (\<lambda>frame.
     bindO (expect ''Failed to create virt address'' (VirtAddr_new_checked (frame + mapping_offset self))) (\<lambda>page.
     Done (Inr page, PageTable_clear page m, self))))"

section \<open>Paths\<close>

abbreviation cell :: "u64 \<Rightarrow> u16 \<Rightarrow> u64" where
  "cell t i \<equiv> t + 8 * ucast i"

definition valid_path :: "u16 list \<Rightarrow> bool" where
  "valid_path p \<longleftrightarrow> (\<forall>i\<in>set p. i < ENTRY_COUNT)"

fun table_at :: "(u64 \<Rightarrow> u64) \<Rightarrow> u64 \<Rightarrow> u64 \<Rightarrow> u16 list \<Rightarrow> u64 option" where
  "table_at m off t [] = Some t"
| "table_at m off t (i # p) =
     (let e = m (cell t i) in if is_present e then table_at m off (pte_addr e + off) p else None)"

definition walk :: "(u64 \<Rightarrow> u64) \<Rightarrow> u64 \<Rightarrow> u64 \<Rightarrow> u16 list \<Rightarrow> u64 option" where
  "walk m off t p =
     (case table_at m off t (butlast p) of
        None \<Rightarrow> None
      | Some l \<Rightarrow> (let e = m (cell l (last p)) in if is_present e then Some (pte_addr e) else None))"

definition va_path :: "VirtAddr \<Rightarrow> u16 list" where
  "va_path v = [p4_index v, p3_index v, p2_index v, p1_index v]"

definition page_aligned :: "u64 \<Rightarrow> bool" where
  "page_aligned t \<longleftrightarrow> t mod 4096 = 0"

definition pt_tree :: "(u64 \<Rightarrow> u64) \<Rightarrow> u64 \<Rightarrow> u64 \<Rightarrow> bool" where
  "pt_tree m off root \<longleftrightarrow>
     (\<forall>p t. valid_path p \<longrightarrow> length p \<le> 3 \<longrightarrow> table_at m off root p = Some t \<longrightarrow> page_aligned t) \<and>
     (\<forall>p q t. valid_path p \<longrightarrow> valid_path q \<longrightarrow> length p \<le> 3 \<longrightarrow> length q \<le> 3 \<longrightarrow>
        table_at m off root p = Some t \<longrightarrow> table_at m off root q = Some t \<longrightarrow> p = q)"

definition tables :: "(u64 \<Rightarrow> u64) \<Rightarrow> u64 \<Rightarrow> u64 \<Rightarrow> u64 set" where
  "tables m off root = {t. \<exists>p. valid_path p \<and> length p \<le> 3 \<and> table_at m off root p = Some t}"

lemma index_less_ENTRY_COUNT [simp]:
  "p4_index v < ENTRY_COUNT" "p3_index v < ENTRY_COUNT" "p2_index v < ENTRY_COUNT" "p1_index v < ENTRY_COUNT"
  by (simp_all add: p4_index_def p3_index_def p2_index_def p1_index_def ENTRY_COUNT_def
      word_mod_less_divisor)

lemma PageTable_index_Done [simp]: "i < ENTRY_COUNT \<Longrightarrow> PageTable_index t i = Done (cell t i)"
  by (simp add: PageTable_index_def)

lemma valid_va_path [simp]: "valid_path (va_path v)"
  by (simp add: valid_path_def va_path_def)

lemma page_aligned_unat: "page_aligned t \<longleftrightarrow> unat t mod 4096 = 0"
  by (simp add: page_aligned_def word_unat_eq_iff unat_mod)

lemma unat_cell:
  assumes "page_aligned t" "i < ENTRY_COUNT"
  shows "unat (cell t i) = unat t + 8 * unat i"
proof -
  have i: "unat i < 512" using assms(2) by (simp add: ENTRY_COUNT_def word_less_nat_alt)
  have "unat (ucast i :: u64) = unat i"
    using i by (simp add: unsigned_ucast_eq take_bit_nat_eq_self_iff)
  then have "unat (8 * ucast i :: u64) = 8 * unat i" using i by (simp add: unat_word_ariths)
  moreover have "unat t + 8 * unat i < 2 ^ 64"
  proof -
    obtain k where k: "unat t = 4096 * k"
      using assms(1) by (auto simp: page_aligned_unat mod_eq_0_iff_dvd elim!: dvdE)
    have "4096 * k < 2 ^ 64" using unat_less_2p64 [of t] by (simp add: k del: unat_less_2p64)
    then have "k < 2 ^ 52" by simp
    then show ?thesis using i by (simp add: k)
  qed
  ultimately show ?thesis by (simp add: unat_word_ariths)
qed

lemma cell_eq_iff [simp]:
  assumes "page_aligned t" "page_aligned t'" "i < ENTRY_COUNT" "j < ENTRY_COUNT"
  shows "cell t i = cell t' j \<longleftrightarrow> t = t' \<and> i = j"
proof
  assume "cell t i = cell t' j"
  then have eq: "unat t + 8 * unat i = unat t' + 8 * unat j"
    using unat_cell [OF assms(1,3)] unat_cell [OF assms(2,4)] by simp
  have b: "8 * unat i < 4096" "8 * unat j < 4096"
    using assms(3,4) by (simp_all add: ENTRY_COUNT_def word_less_nat_alt)
  have "unat t mod 4096 = 0" "unat t' mod 4096 = 0" using assms(1,2) by (simp_all add: page_aligned_unat)
  then have "(unat t + 8 * unat i) mod 4096 = 8 * unat i" "(unat t' + 8 * unat j) mod 4096 = 8 * unat j"
    using b by (simp_all add: mod_add_eq [symmetric, of "unat t"] mod_add_eq [symmetric, of "unat t'"])
  with eq have "unat i = unat j" by simp
  with eq show "t = t' \<and> i = j" by (simp add: word_unat_eq_iff)
qed simp

lemma of_nat_cell: "n < 512 \<Longrightarrow> t + 8 * of_nat n = cell t (of_nat n)"
proof -
  assume "n < 512"
  then have "(ucast (of_nat n :: u16) :: u64) = of_nat n"
    by (simp add: word_unat_eq_iff unsigned_ucast_eq unat_of_nat take_bit_nat_eq_self)
  then show ?thesis by simp
qed

lemma fold_upd_apply:
  "fold (\<lambda>i m. m(f i := c)) xs m x = (if x \<in> f ` set xs then c else m x)"
  by (induction xs arbitrary: m) auto

lemma clear_apply:
  "PageTable_clear t m x = (if \<exists>i<ENTRY_COUNT. x = cell t i then 0 else m x)"
proof -
  have "x \<in> (\<lambda>i. t + 8 * of_nat i) ` set [0..<512] \<longleftrightarrow> (\<exists>i<ENTRY_COUNT. x = cell t i)"
  proof
    assume "x \<in> (\<lambda>i. t + 8 * of_nat i) ` set [0..<512]"
    then obtain n where n: "n < 512" "x = t + 8 * of_nat n" by auto
    then have "x = cell t (of_nat n)" by (simp add: of_nat_cell)
    moreover have "(of_nat n :: u16) < ENTRY_COUNT"
      using n(1) by (simp add: ENTRY_COUNT_def word_less_nat_alt unat_of_nat)
    ultimately show "\<exists>i<ENTRY_COUNT. x = cell t i" by blast
  next
    assume "\<exists>i<ENTRY_COUNT. x = cell t i"
    then obtain i where i: "i < ENTRY_COUNT" "x = cell t i" by blast
    then have "unat i < 512" by (simp add: ENTRY_COUNT_def word_less_nat_alt)
    moreover have "x = t + 8 * of_nat (unat i)" using i(2) of_nat_cell [OF calculation, of t] by simp
    ultimately show "x \<in> (\<lambda>i. t + 8 * of_nat i) ` set [0..<512]"
      by (intro image_eqI [of _ _ "unat i"]) simp_all
  qed
  then show ?thesis
    by (simp add: PageTable_clear_def fold_upd_apply set_addr_def ENTRY_COUNT_def)
qed

lemma clear_cell [simp]:
  "page_aligned t \<Longrightarrow> page_aligned n \<Longrightarrow> j < ENTRY_COUNT \<Longrightarrow>
     PageTable_clear n m (cell t j) = (if t = n then 0 else m (cell t j))"
  by (auto simp: clear_apply)

section \<open>Entry encoding\<close>

definition frame_ok :: "u64 \<Rightarrow> bool" where
  "frame_ok f \<longleftrightarrow> f mod 4096 = 0 \<and> f < 0x10000000000000"

lemma bit_addr_mask: "bit (0x000ffffffffff000 :: int) i \<longleftrightarrow> 12 \<le> i \<and> i < 52"
proof -
  have "(0x000ffffffffff000 :: int) = push_bit 12 (mask 40)" by (simp add: mask_eq_exp_minus_1)
  then show ?thesis by (simp only: bit_push_bit_iff bit_mask_iff) auto
qed

lemma is_present_iff: "is_present e \<longleftrightarrow> bit e 0"
  by (simp add: is_present_def contains_def flags_def from_bits_truncate_def PRESENT_def
      PageTableFlags_all_def and_one_eq bit_0 mod2_eq_if even_and_iff)

lemma contains_flags_PRESENT [simp]: "contains (flags e) PRESENT \<longleftrightarrow> is_present e"
  by (simp add: is_present_def)

lemma is_present_0 [simp]: "\<not> is_present 0"
  by (simp add: is_present_iff)

lemma is_present_set_addr [simp]: "is_present (set_addr a (PRESENT OR WRITABLE))"
  by (simp add: is_present_iff set_addr_def PRESENT_def WRITABLE_def bit_or_iff)

lemma frame_ok_bits: "frame_ok f \<Longrightarrow> bit f i \<Longrightarrow> 12 \<le> i \<and> i < 52"
proof -
  assume f: "frame_ok f" and b: "bit f i"
  have "take_bit 12 f = 0" using f by (simp add: frame_ok_def take_bit_eq_mod)
  then have "\<not> i < 12" using b by (metis bit_0_eq bit_take_bit_iff bot_apply bot_bool_def)
  moreover have "i < 52"
  proof -
    have "f < 2 ^ 52" using f by (simp add: frame_ok_def)
    then have "take_bit 52 f = f" by (simp add: word_unat_eq_iff unsigned_take_bit_eq take_bit_nat_eq_self word_less_nat_alt)
    then show ?thesis using b by (metis bit_take_bit_iff)
  qed
  ultimately show ?thesis by simp
qed

lemma pte_addr_set_addr [simp]:
  assumes "frame_ok f" shows "pte_addr (set_addr f (PRESENT OR WRITABLE)) = f"
proof (rule bit_word_eqI)
  fix i :: nat assume "i < LENGTH(64)"
  moreover have "bit (3 :: int) i \<longleftrightarrow> i < 2"
    using bit_mask_iff [of 2 i, where 'a = int] by (simp add: mask_eq_exp_minus_1)
  ultimately show "bit (pte_addr (set_addr f (PRESENT OR WRITABLE))) i = bit f i"
    using frame_ok_bits [OF assms, of i]
    by (auto simp: pte_addr_def set_addr_def PRESENT_def WRITABLE_def bit_simps bit_addr_mask)
qed

end
