(* ===== verification/Page_Table_Tree.thy ===== *)
theory Page_Table_Tree
  imports Page_Table
begin

text \<open>
  How the two writes of \<open>map_address_impl\<close> act on the tree of tables: a write to a level-1
  entry changes one translation, and linking a cleared table into an absent entry changes none.
\<close>

lemma valid_path_simps [simp]:
  "valid_path []"
  "valid_path (i # p) \<longleftrightarrow> i < ENTRY_COUNT \<and> valid_path p"
  "valid_path (p @ q) \<longleftrightarrow> valid_path p \<and> valid_path q"
  by (auto simp: valid_path_def)

lemma table_at_append:
  "table_at m off t (p @ q) =
     (case table_at m off t p of None \<Rightarrow> None | Some t' \<Rightarrow> table_at m off t' q)"
  by (induction p arbitrary: t) (simp_all add: Let_def)

lemma walk_snoc:
  "walk m off t (p @ [i]) =
     (case table_at m off t p of
        None \<Rightarrow> None
      | Some l \<Rightarrow> if is_present (m (cell l i)) then Some (pte_addr (m (cell l i))) else None)"
  by (simp add: walk_def Let_def split: option.split)

lemma table_at_cong:
  assumes "\<And>q' j r t'. q = q' @ j # r \<Longrightarrow> table_at m off t q' = Some t' \<Longrightarrow>
             m' (cell t' j) = m (cell t' j)"
  shows "table_at m' off t q = table_at m off t q"
  using assms
proof (induction q arbitrary: t)
  case (Cons i q)
  have head: "m' (cell t i) = m (cell t i)"
    using Cons.prems [of "[]" i q t] by simp
  show ?case
  proof (cases "is_present (m (cell t i))")
    case True
    have "table_at m' off (pte_addr (m (cell t i)) + off) q =
          table_at m off (pte_addr (m (cell t i)) + off) q"
      by (rule Cons.IH) (use Cons.prems [of "i # _"] True in \<open>simp add: Let_def\<close>)
    with head True show ?thesis by (simp add: Let_def)
  qed (simp add: head Let_def)
qed simp

lemma pt_tree_aligned:
  "pt_tree m off root \<Longrightarrow> table_at m off root p = Some t \<Longrightarrow> valid_path p \<Longrightarrow> length p \<le> 3 \<Longrightarrow>
     page_aligned t"
  unfolding pt_tree_def by blast

lemma pt_tree_inj:
  "pt_tree m off root \<Longrightarrow> table_at m off root p = Some t \<Longrightarrow> table_at m off root q = Some t \<Longrightarrow>
     valid_path p \<Longrightarrow> valid_path q \<Longrightarrow> length p \<le> 3 \<Longrightarrow> length q \<le> 3 \<Longrightarrow> p = q"
  unfolding pt_tree_def by blast

lemma tablesI:
  "table_at m off root p = Some t \<Longrightarrow> valid_path p \<Longrightarrow> length p \<le> 3 \<Longrightarrow> t \<in> tables m off root"
  by (auto simp: tables_def)

lemma pt_tree_cong:
  assumes "\<And>q. valid_path q \<Longrightarrow> length q \<le> 3 \<Longrightarrow> table_at m' off root q = table_at m off root q"
  shows "pt_tree m' off root = pt_tree m off root" "tables m' off root = tables m off root"
  unfolding pt_tree_def tables_def using assms by (simp_all cong: imp_cong conj_cong)

section \<open>Writing a level-1 entry\<close>

lemma table_at_leaf_write:
  assumes tree: "pt_tree m off root"
    and p: "table_at m off root p = Some t" "valid_path p" "length p = 3" and i: "i < ENTRY_COUNT"
    and q: "valid_path q" "length q \<le> 3"
  shows "table_at (m(cell t i := v)) off root q = table_at m off root q"
proof (rule table_at_cong)
  fix q' j r t' assume eq: "q = q' @ j # r" and t': "table_at m off root q' = Some t'"
  have q': "valid_path q'" "length q' \<le> 3" "j < ENTRY_COUNT" "q' \<noteq> p"
    using q p eq by auto
  then have "t' \<noteq> t" using pt_tree_inj [OF tree t', of p] p by fastforce
  then show "(m(cell t i := v)) (cell t' j) = m (cell t' j)"
    using pt_tree_aligned [OF tree t'] pt_tree_aligned [OF tree p(1)] p q' i by simp
qed

lemma pt_tree_leaf_write:
  assumes "pt_tree m off root" "table_at m off root p = Some t" "valid_path p" "length p = 3"
    "i < ENTRY_COUNT"
  shows "pt_tree (m(cell t i := v)) off root"
    and "tables (m(cell t i := v)) off root = tables m off root"
  using pt_tree_cong [of "m(cell t i := v)" off root m] table_at_leaf_write [OF assms] assms(1)
  by simp_all

lemma walk_leaf_write:
  assumes tree: "pt_tree m off root"
    and p: "table_at m off root p = Some t" "valid_path p" "length p = 3" and i: "i < ENTRY_COUNT"
    and q: "valid_path q" "length q = 4"
    and v: "is_present v"
  shows "walk (m(cell t i := v)) off root q =
    (if q = p @ [i] then Some (pte_addr v) else walk m off root q)"
proof -
  obtain q' j where qs: "q = q' @ [j]" using q(2) by (metis length_0_conv rev_exhaust zero_neq_numeral)
  then have q': "valid_path q'" "length q' = 3" "j < ENTRY_COUNT" using q by auto
  have ta: "table_at (m(cell t i := v)) off root q' = table_at m off root q'"
    using table_at_leaf_write [OF tree p i] q' by simp
  show ?thesis
  proof (cases "table_at m off root q'")
    case None
    then have "q' \<noteq> p" using p by auto
    then show ?thesis unfolding qs walk_snoc using None ta by simp
  next
    case (Some l)
    have "l = t \<longleftrightarrow> q' = p" using pt_tree_inj [OF tree Some, of p] p q' Some by auto
    moreover have "page_aligned l" "page_aligned t"
      using pt_tree_aligned [OF tree Some] pt_tree_aligned [OF tree p(1)] p q' by auto
    ultimately show ?thesis unfolding qs walk_snoc using Some ta q' i v by simp
  qed
qed

section \<open>Hanging a cleared table into the tree\<close>

definition grow :: "(u64 \<Rightarrow> u64) \<Rightarrow> u64 \<Rightarrow> u64 \<Rightarrow> u64 \<Rightarrow> (u64 \<Rightarrow> u64)" where
  "grow m off e n = (PageTable_clear n m)(e := set_addr (n - off) (PRESENT OR WRITABLE))"

lemma table_at_grow:
  assumes tree: "pt_tree m off root"
    and p: "table_at m off root p = Some t" "valid_path p" "length p \<le> 2" and i: "i < ENTRY_COUNT"
    and absent: "\<not> is_present (m (cell t i))"
    and n: "page_aligned n" "n \<notin> tables m off root" "frame_ok (n - off)"
    and q: "valid_path q" "length q \<le> 3"
  shows "table_at (grow m off (cell t i) n) off root q =
    (if q = p @ [i] then Some n else table_at m off root q)"
proof -
  let ?m = "grow m off (cell t i) n"
  have alt: "page_aligned t" using pt_tree_aligned [OF tree p(1,2)] p(3) by simp
  have tn: "t \<noteq> n" using tablesI [OF p(1,2)] p(3) n(2) by auto
  have same: "table_at ?m off root r = table_at m off root r"
    if r: "valid_path r" "length r \<le> 3" "\<And>r'. r \<noteq> p @ i # r'" for r
  proof (rule table_at_cong)
    fix r' j r'' t' assume eq: "r = r' @ j # r''" and t': "table_at m off root r' = Some t'"
    have r': "valid_path r'" "length r' \<le> 3" "j < ENTRY_COUNT" using r eq by auto
    have "page_aligned t'" "t' \<noteq> n"
      using pt_tree_aligned [OF tree t'] tablesI [OF t'] n(2) r' by auto
    moreover have "\<not> (t' = t \<and> j = i)"
      using pt_tree_inj [OF tree t', of p] p r' r(3) [of r''] eq by fastforce
    ultimately show "?m (cell t' j) = m (cell t' j)"
      using r' i alt n by (auto simp: grow_def)
  qed
  have at_p: "table_at ?m off root p = Some t" using same [of p] p by simp
  have e: "?m (cell t i) = set_addr (n - off) (PRESENT OR WRITABLE)" by (simp add: grow_def)
  show ?thesis
  proof (cases "\<exists>r. q = p @ i # r")
    case False
    then show ?thesis using same [of q] q by auto
  next
    case True
    then obtain r where r: "q = p @ i # r" by blast
    have before: "table_at m off root q = None"
      using absent p(1) by (simp add: r table_at_append)
    have after: "table_at ?m off root q = table_at ?m off n r"
      using at_p e n(3) by (simp add: r table_at_append Let_def)
    show ?thesis
    proof (cases r)
      case Nil
      then show ?thesis using after r by simp
    next
      case (Cons j r')
      then have "j < ENTRY_COUNT" using q r by simp
      then have "?m (cell n j) = 0" using alt n tn i by (simp add: grow_def)
      then have "table_at ?m off n r = None" by (simp add: Cons)
      then show ?thesis using after before r Cons by simp
    qed
  qed
qed

lemma pt_tree_grow:
  assumes "pt_tree m off root"
    and "table_at m off root p = Some t" "valid_path p" "length p \<le> 2" "i < ENTRY_COUNT"
    and "\<not> is_present (m (cell t i))"
    and "page_aligned n" "n \<notin> tables m off root" "frame_ok (n - off)"
  shows "pt_tree (grow m off (cell t i) n) off root"
    and "tables (grow m off (cell t i) n) off root \<subseteq> insert n (tables m off root)"
proof -
  note at = table_at_grow [OF assms]
  have inj: "q = q'" if "valid_path q" "valid_path q'" "length q \<le> 3" "length q' \<le> 3"
      "table_at (grow m off (cell t i) n) off root q = Some x"
      "table_at (grow m off (cell t i) n) off root q' = Some x" for q q' x
    using that(5,6) tablesI [of m off root q x] tablesI [of m off root q' x]
      pt_tree_inj [OF assms(1), of q x q'] assms(8) that(1-4)
    unfolding at [OF that(1,3)] at [OF that(2,4)] by (auto split: if_splits)
  have "page_aligned x" if "valid_path q" "length q \<le> 3"
      "table_at (grow m off (cell t i) n) off root q = Some x" for q x
    using that pt_tree_aligned [OF assms(1), of q x] assms(7)
    by (cases "q = p @ [i]") (simp_all add: at)
  with inj show "pt_tree (grow m off (cell t i) n) off root"
    unfolding pt_tree_def by blast
  show "tables (grow m off (cell t i) n) off root \<subseteq> insert n (tables m off root)"
    by (auto simp: tables_def at split: if_splits)
qed

lemma walk_grow:
  assumes tree: "pt_tree m off root"
    and p: "table_at m off root p = Some t" "valid_path p" "length p \<le> 2" and i: "i < ENTRY_COUNT"
    and absent: "\<not> is_present (m (cell t i))"
    and n: "page_aligned n" "n \<notin> tables m off root" "frame_ok (n - off)"
    and q: "valid_path q" "length q = 4"
  shows "walk (grow m off (cell t i) n) off root q = walk m off root q"
proof -
  let ?m = "grow m off (cell t i) n"
  obtain q' j where qs: "q = q' @ [j]" using q(2) by (metis length_0_conv rev_exhaust zero_neq_numeral)
  then have q': "valid_path q'" "length q' = 3" "j < ENTRY_COUNT" using q by auto
  have alt: "page_aligned t" using pt_tree_aligned [OF tree p(1,2)] p(3) by simp
  have ta: "table_at ?m off root q' = (if q' = p @ [i] then Some n else table_at m off root q')"
    using table_at_grow [OF tree p i absent n] q' by simp
  have tn: "t \<noteq> n" using tablesI [OF p(1,2)] p(3) n(2) by auto
  show ?thesis
  proof (cases "q' = p @ [i]")
    case True
    have "table_at m off root q' = None" using absent p(1) by (simp add: True table_at_append)
    moreover have "?m (cell n j) = 0" using q' i alt n tn by (simp add: grow_def)
    ultimately show ?thesis unfolding qs walk_snoc using True ta by simp
  next
    case False
    show ?thesis
    proof (cases "table_at m off root q'")
      case None
      then show ?thesis unfolding qs walk_snoc using False ta by simp
    next
      case (Some l)
      have "page_aligned l" "l \<noteq> n" using pt_tree_aligned [OF tree Some] tablesI [OF Some] n(2) q' by auto
      moreover have "l \<noteq> t" using pt_tree_inj [OF tree Some, of p] p q' by auto
      ultimately have "?m (cell l j) = m (cell l j)" using q' i alt n by (simp add: grow_def)
      then show ?thesis unfolding qs walk_snoc using Some False ta by simp
    qed
  qed
qed

end
