(* ===== verification/Page_Table_Map.thy ===== *)
theory Page_Table_Map
  imports Page_Table_Tree
begin

text \<open>
  The contract between the mapping functions and the provider of page tables
  (the trait \<open>PageTablesAllocator\<close>), as a locale, and what \<open>map_address_impl\<close> does under it.
\<close>

definition pt_ready ::
    "('a \<Rightarrow> bool) \<Rightarrow> ('a \<Rightarrow> u64 set) \<Rightarrow> u64 \<Rightarrow> u64 \<Rightarrow> (u64 \<Rightarrow> u64) \<Rightarrow> 'a \<Rightarrow> bool" where
  "pt_ready okA pool off root m a \<longleftrightarrow>
     okA a \<and> pt_tree m off root \<and> tables m off root \<inter> pool a = {}"

definition same_walks :: "u64 \<Rightarrow> u64 \<Rightarrow> (u64 \<Rightarrow> u64) \<Rightarrow> (u64 \<Rightarrow> u64) \<Rightarrow> bool" where
  "same_walks off root m m' \<longleftrightarrow>
     (\<forall>q. valid_path q \<longrightarrow> length q = 4 \<longrightarrow> walk m' off root q = walk m off root q)"

lemma same_walks_refl [simp]: "same_walks off root m m"
  by (simp add: same_walks_def)

lemma same_walks_trans: "same_walks off root m m' \<Longrightarrow> same_walks off root m' m'' \<Longrightarrow> same_walks off root m m''"
  by (simp add: same_walks_def)

locale page_tables_allocator =
  fixes alloc :: "'a pt_alloc"
    and off :: u64
    and okA :: "'a \<Rightarrow> bool"
    and pool :: "'a \<Rightarrow> u64 set"
    and avail :: "'a \<Rightarrow> nat"
  assumes alloc_Ok: "okA a \<Longrightarrow> alloc m a = Done (Inr n, m', a') \<Longrightarrow>
      okA a' \<and> m' = PageTable_clear n m \<and> n \<in> pool a \<and> pool a' \<subseteq> pool a - {n} \<and>
      page_aligned n \<and> frame_ok (n - off)"
    and alloc_Err: "okA a \<Longrightarrow> alloc m a = Done (Inl e, m', a') \<Longrightarrow>
      okA a' \<and> m' = m \<and> pool a' \<subseteq> pool a"
    and alloc_avail: "okA a \<Longrightarrow> 0 < avail a \<Longrightarrow>
      \<exists>n m' a'. alloc m a = Done (Inr n, m', a') \<and> avail a = Suc (avail a')"
begin

lemma next_table:
  assumes ready: "pt_ready okA pool off root m a"
    and p: "table_at m off root p = Some t" "valid_path p" "length p \<le> 2" and i: "i < ENTRY_COUNT"
    and run: "create_next_table (cell t i) alloc off m a = Done (r, m', a')"
  shows "pt_ready okA pool off root m' a'" "same_walks off root m m'"
    and "r = Inr t' \<Longrightarrow> table_at m' off root (p @ [i]) = Some t'"
proof -
  have okA: "okA a" and tree: "pt_tree m off root" and sep: "tables m off root \<inter> pool a = {}"
    using ready by (simp_all add: pt_ready_def)
  have "pt_ready okA pool off root m' a' \<and> same_walks off root m m' \<and>
      (r = Inr t' \<longrightarrow> table_at m' off root (p @ [i]) = Some t')"
  proof (cases "is_present (m (cell t i))")
    case True
    then show ?thesis using run ready p
      by (auto simp: create_next_table_def table_at_append)
  next
    case absent: False
    then obtain r1 m1 a1 where al: "alloc m a = Done (r1, m1, a1)"
      using run by (auto simp: create_next_table_def outcome_simps)
    show ?thesis
    proof (cases r1)
      case (Inl e)
      then show ?thesis using run absent al alloc_Err [OF okA, of m e m1 a1] tree sep
        by (auto simp: create_next_table_def pt_ready_def)
    next
      case (Inr n)
      then have A: "okA a1" "m1 = PageTable_clear n m" "n \<in> pool a" "pool a1 \<subseteq> pool a - {n}"
          "page_aligned n" "frame_ok (n - off)"
        using alloc_Ok [OF okA, of m n m1 a1] al by auto
      have res: "r = Inr n" "m' = grow m off (cell t i) n" "a' = a1"
        using run absent al Inr A(2) by (auto simp: create_next_table_def grow_def)
      have n: "n \<notin> tables m off root" using A(3) sep by blast
      note G = tree p i absent A(5) n A(6)
      have "same_walks off root m m'"
        using walk_grow [OF G] by (simp add: same_walks_def res)
      moreover have "table_at m' off root (p @ [i]) = Some n"
        using table_at_grow [OF G] p i by (simp add: res)
      moreover have "pt_ready okA pool off root m' a'"
        using pt_tree_grow [OF G] A(1,4) sep unfolding res pt_ready_def by blast
      ultimately show ?thesis by (auto simp: res)
    qed
  qed
  then show "pt_ready okA pool off root m' a'" "same_walks off root m m'"
    "r = Inr t' \<Longrightarrow> table_at m' off root (p @ [i]) = Some t'" by blast+
qed

lemma next_table_avail:
  assumes "okA a" "0 < avail a"
  shows "\<exists>t' m' a'. create_next_table e alloc off m a = Done (Inr t', m', a') \<and> avail a \<le> Suc (avail a')"
  using alloc_avail [OF assms, of m] by (auto simp: create_next_table_def)

lemma next_table_err:
  "create_next_table e alloc off m a = Done (Inl x, m', a') \<Longrightarrow> alloc m a = Done (Inl x, m', a')"
  by (cases "alloc m a") (auto simp: create_next_table_def split: if_splits sum.split_asm)

text \<open>
  The descent to the level-1 table either stops at an allocator error, with every
  translation as it was, or reaches the table of the address.
\<close>

lemma descend:
  assumes ready: "pt_ready okA pool off root (mem s) a"
    and al: "virt mod 4096 = 0" "phys mod 4096 = 0"
    and run: "map_address_impl root virt phys alloc mode off s a = Done (r, s', a')"
  shows "(\<exists>e. r = Inl e \<and> pt_ready okA pool off root (mem s') a' \<and> same_walks off root (mem s) (mem s') \<and>
             (\<exists>a1 m m1 a2. okA a1 \<and> alloc m a1 = Done (Inl e, m1, a2))) \<or>
    (\<exists>m l1. pt_ready okA pool off root m a' \<and> same_walks off root (mem s) m \<and>
       table_at m off root [p4_index virt, p3_index virt, p2_index virt] = Some l1 \<and>
       (r, s') = map_l1_entry (cell l1 (p1_index virt)) phys mode (s\<lparr>mem := m\<rparr>))"
proof -
  note table_at.simps(2) [simp del] and valid_path_def [simp]
  have run1: "bindO (create_next_table (cell root (p4_index virt)) alloc off (mem s) a) (\<lambda>(r, m, a). case r of
          Inl e \<Rightarrow> Done (Inl e, s\<lparr>mem := m\<rparr>, a)
        | Inr l3 \<Rightarrow>
        bindO (create_next_table (cell l3 (p3_index virt)) alloc off m a) (\<lambda>(r, m, a). case r of
          Inl e \<Rightarrow> Done (Inl e, s\<lparr>mem := m\<rparr>, a)
        | Inr l2 \<Rightarrow>
        bindO (create_next_table (cell l2 (p2_index virt)) alloc off m a) (\<lambda>(r, m, a). case r of
          Inl e \<Rightarrow> Done (Inl e, s\<lparr>mem := m\<rparr>, a)
        | Inr l1 \<Rightarrow>
          let (r, s) = map_l1_entry (cell l1 (p1_index virt)) phys mode (s\<lparr>mem := m\<rparr>) in Done (r, s, a))))
      = Done (r, s', a')"
    using run al by (simp add: map_address_impl_def cong: sum.case_cong)
  obtain r1 m1 a1 where c1: "create_next_table (cell root (p4_index virt)) alloc off (mem s) a = Done (r1, m1, a1)"
    using run1 by (auto simp: outcome_simps)
  note N1 = next_table [OF ready _ _ _ _ c1, where p = "[]", simplified]
  show ?thesis
  proof (cases r1)
    case (Inl e)
    then show ?thesis using run1 c1 N1 next_table_err [OF c1 [unfolded Inl]] ready by (auto simp: pt_ready_def)
  next
    case l3: (Inr l3)
    obtain r2 m2 a2 where c2: "create_next_table (cell l3 (p3_index virt)) alloc off m1 a1 = Done (r2, m2, a2)"
      using run1 c1 l3 by (auto simp: outcome_simps)
    note N2 = next_table [OF N1(1) N1(3) [OF l3] _ _ _ c2, simplified]
    note W2 = same_walks_trans [OF N1(2) N2(2)]
    show ?thesis
    proof (cases r2)
      case (Inl e)
      then show ?thesis using run1 c1 c2 l3 N1(1) N2 W2 next_table_err [OF c2 [unfolded Inl]] by (auto simp: pt_ready_def)
    next
      case l2: (Inr l2)
      obtain r3 m3 a3 where c3: "create_next_table (cell l2 (p2_index virt)) alloc off m2 a2 = Done (r3, m3, a3)"
        using run1 c1 c2 l3 l2 by (auto simp: outcome_simps)
      note N3 = next_table [OF N2(1) N2(3) [OF l2] _ _ _ c3, simplified]
      note W3 = same_walks_trans [OF W2 N3(2)]
      show ?thesis
      proof (cases r3)
        case (Inl e)
        then show ?thesis using run1 c1 c2 c3 l3 l2 N2(1) N3 W3 next_table_err [OF c3 [unfolded Inl]]
          by (auto simp: pt_ready_def)
      next
        case (Inr l1)
        then show ?thesis using run1 c1 c2 c3 l3 l2 N3(1) N3(3) [OF Inr] W3
          by (auto split: prod.splits)
      qed
    qed
  qed
qed

lemma map_Ok:
  assumes ready: "pt_ready okA pool off root (mem s) a" and phys: "frame_ok phys"
    and run: "map_address_impl root virt phys alloc mode off s a = Done (Inr (), s', a')"
  shows "pt_ready okA pool off root (mem s') a'"
    and "valid_path q \<Longrightarrow> length q = 4 \<Longrightarrow>
      walk (mem s') off root q = (if q = va_path virt then Some phys else walk (mem s) off root q)"
proof -
  have al: "virt mod 4096 = 0" "phys mod 4096 = 0"
    using run by (auto simp: map_address_impl_def split: if_splits)
  let ?p = "[p4_index virt, p3_index virt, p2_index virt]" and ?e = "set_addr phys (PRESENT OR WRITABLE)"
  obtain m l1 where m: "pt_ready okA pool off root m a'" "same_walks off root (mem s) m"
    and l1: "table_at m off root ?p = Some l1"
    and leaf: "(Inr (), s') = map_l1_entry (cell l1 (p1_index virt)) phys mode (s\<lparr>mem := m\<rparr>)"
    using descend [OF ready al run] by auto
  have tree: "pt_tree m off root" using m(1) by (simp add: pt_ready_def)
  have path: "va_path virt = ?p @ [p1_index virt]" by (simp add: va_path_def)
  have cases: "mem s' = m(cell l1 (p1_index virt) := ?e) \<or>
      mem s' = m \<and> walk m off root (va_path virt) = Some phys"
    using leaf l1 unfolding path
    by (auto simp: map_l1_entry_def walk_snoc simp del: append.simps split: if_splits MappingMode.splits)
  show "pt_ready okA pool off root (mem s') a'"
    using cases m(1) pt_tree_leaf_write [OF tree l1, of "p1_index virt" ?e]
    by (auto simp: pt_ready_def)
  show "walk (mem s') off root q = (if q = va_path virt then Some phys else walk (mem s) off root q)"
    if q: "valid_path q" "length q = 4"
    using cases walk_leaf_write [OF tree l1, of "p1_index virt" q ?e] q m(2) phys
    by (auto simp: same_walks_def va_path_def)
qed

lemma map_Err:
  assumes ready: "pt_ready okA pool off root (mem s) a"
    and run: "map_address_impl root virt phys alloc mode off s a = Done (Inl e, s', a')"
  shows "pt_ready okA pool off root (mem s') a'" "same_walks off root (mem s) (mem s')"
    and "virt mod 4096 \<noteq> 0 \<or> phys mod 4096 \<noteq> 0 \<or> (\<exists>a1 m m1 a2. okA a1 \<and> alloc m a1 = Done (Inl e, m1, a2)) \<or>
      (\<exists>f. walk (mem s) off root (va_path virt) = Some f \<and> f \<noteq> phys)" (is ?why)
proof -
  have "pt_ready okA pool off root (mem s') a' \<and> same_walks off root (mem s) (mem s') \<and> ?why"
  proof (cases "virt mod 4096 = 0 \<and> phys mod 4096 = 0")
    case True
    then consider (alloc) "pt_ready okA pool off root (mem s') a'" "same_walks off root (mem s) (mem s')"
        "\<exists>a1 m m1 a2. okA a1 \<and> alloc m a1 = Done (Inl e, m1, a2)"
      | (leaf) m l1 where "pt_ready okA pool off root m a'" "same_walks off root (mem s) m"
        "table_at m off root [p4_index virt, p3_index virt, p2_index virt] = Some l1"
        "(Inl e, s') = map_l1_entry (cell l1 (p1_index virt)) phys mode (s\<lparr>mem := m\<rparr>)"
      using descend [OF ready _ _ run] by (metis sum.inject(1))
    then show ?thesis
    proof cases
      case alloc
      then show ?thesis by simp
    next
      case leaf
      have "mem s' = m" "\<exists>f. walk m off root (va_path virt) = Some f \<and> f \<noteq> phys"
        using leaf(4) leaf(3)
          walk_snoc [of m off root "[p4_index virt, p3_index virt, p2_index virt]" "p1_index virt"]
        by (auto simp: map_l1_entry_def va_path_def split: if_splits MappingMode.splits)
      moreover have "walk m off root (va_path virt) = walk (mem s) off root (va_path virt)"
        using leaf(2) by (simp add: same_walks_def va_path_def)
      ultimately show ?thesis using leaf(1,2) by simp
    qed
  next
    case False
    then show ?thesis using run ready by (auto simp: map_address_impl_def split: if_splits)
  qed
  then show "pt_ready okA pool off root (mem s') a'" "same_walks off root (mem s) (mem s')" ?why by simp_all
qed

lemma map_enough:
  assumes ready: "pt_ready okA pool off root (mem s) a" and avail: "3 \<le> avail a"
    and al: "virt mod 4096 = 0" "phys mod 4096 = 0"
    and free: "mode = Remapping \<or> walk (mem s) off root (va_path virt) \<in> {None, Some phys}"
  shows "\<exists>s' a'. map_address_impl root virt phys alloc mode off s a = Done (Inr (), s', a') \<and> avail a \<le> avail a' + 3"
proof -
  obtain l3 m1 a1 where c1: "create_next_table (cell root (p4_index virt)) alloc off (mem s) a = Done (Inr l3, m1, a1)"
    and av1: "avail a \<le> Suc (avail a1)"
    using next_table_avail [of a "cell root (p4_index virt)" "mem s"] ready avail by (auto simp: pt_ready_def)
  note N1 = next_table [OF ready, of "[]" root "p4_index virt", OF _ _ _ _ c1]
  have r1: "pt_ready okA pool off root m1 a1" and t1: "table_at m1 off root [p4_index virt] = Some l3"
    and w1: "same_walks off root (mem s) m1"
    using N1 by simp_all
  obtain l2 m2 a2 where c2: "create_next_table (cell l3 (p3_index virt)) alloc off m1 a1 = Done (Inr l2, m2, a2)"
    and av2: "avail a1 \<le> Suc (avail a2)"
    using next_table_avail [of a1 "cell l3 (p3_index virt)" m1] r1 avail av1 by (auto simp: pt_ready_def)
  note N2 = next_table [OF r1 t1 _ _ _ c2]
  have r2: "pt_ready okA pool off root m2 a2"
    and t2: "table_at m2 off root [p4_index virt, p3_index virt] = Some l2"
    and w2: "same_walks off root m1 m2"
    using N2 by simp_all
  obtain l1 m3 a3 where c3: "create_next_table (cell l2 (p2_index virt)) alloc off m2 a2 = Done (Inr l1, m3, a3)"
    and av3: "avail a2 \<le> Suc (avail a3)"
    using next_table_avail [of a2 "cell l2 (p2_index virt)" m2] r2 avail av1 av2 by (auto simp: pt_ready_def)
  note N3 = next_table [OF r2 t2 _ _ _ c3]
  have "same_walks off root (mem s) m3"
    and t3: "table_at m3 off root [p4_index virt, p3_index virt, p2_index virt] = Some l1"
    using N3 same_walks_trans [OF same_walks_trans [OF w1 w2]] by simp_all
  then have "walk m3 off root (va_path virt) = walk (mem s) off root (va_path virt)"
    by (simp add: same_walks_def va_path_def)
  then have "mode = Remapping \<or> \<not> is_present (m3 (cell l1 (p1_index virt))) \<or>
      pte_addr (m3 (cell l1 (p1_index virt))) = phys"
    using free t3 walk_snoc [of m3 off root "[p4_index virt, p3_index virt, p2_index virt]" "p1_index virt"]
    by (auto simp: va_path_def split: if_splits)
  then show ?thesis
    using al c1 c2 c3 av1 av2 av3
    by (cases mode) (auto simp: map_address_impl_def map_l1_entry_def)
qed

end

lemma table_at_prefix:
  "table_at m off t (p @ q) = Some t' \<Longrightarrow> \<exists>u. table_at m off t p = Some u"
  by (auto simp: table_at_append split: option.splits)

lemma map_present:
  assumes w: "walk (mem s) off root (va_path virt) = Some f"
    and al: "virt mod 4096 = 0" "phys mod 4096 = 0"
  shows "map_address_impl root virt phys alloc CheckFrameIsFree off s a =
    Done (if f = phys then Inr () else Inl ''this virtual address already mapped to another frame'', s, a)"
  using w al
  by (auto simp: walk_def va_path_def map_address_impl_def create_next_table_def map_l1_entry_def Let_def
      split: if_splits option.splits)

end
