(* ===== verification/Paging_Frames.thy ===== *)
theory Paging_Frames
  imports Page_Table_Map
begin

text \<open>
  The frame allocator as the provider of page tables
  (\<^verbatim>\<open>shared_lib/src/frame_allocator.rs\<close>, \<open>impl PageTablesAllocator\<close>), and what
  \<open>map_address\<close> and its variants do to the translation of every address when their
  tables come from it.
\<close>

text \<open>
  The allocator is usable at the mapping offset \<open>off\<close>: its memory map is well formed and
  every frame it has left is reachable in the lower half at \<open>off\<close>.
\<close>

definition fa_ok :: "u64 \<Rightarrow> FrameAllocator \<Rightarrow> bool" where
  "fa_ok off fa \<longleftrightarrow> mapping_offset fa = off \<and> off mod 4096 = 0 \<and> memory_map_ok (memory_map fa) \<and>
     (\<forall>f\<in>set (remaining fa). unat f + unat off < 2 ^ 47)"

definition fa_pool :: "u64 \<Rightarrow> FrameAllocator \<Rightarrow> u64 set" where
  "fa_pool off fa = (\<lambda>f. f + off) ` set (remaining fa)"

text \<open>
  The page tables rooted at \<open>root\<close> are a tree, and neither a frame left in the allocator nor
  an address of the set \<open>X\<close> of frames in use for something else belongs to it.
\<close>

definition fa_ready :: "u64 \<Rightarrow> u64 set \<Rightarrow> FrameAllocator \<Rightarrow> bool" where
  "fa_ready off X fa \<longleftrightarrow> fa_ok off fa \<and> fa_pool off fa \<inter> X = {}"

definition paging_ok :: "u64 \<Rightarrow> u64 set \<Rightarrow> u64 \<Rightarrow> machine \<Rightarrow> FrameAllocator \<Rightarrow> bool" where
  "paging_ok off X root s fa \<longleftrightarrow>
     pt_ready (fa_ready off X) (\<lambda>fa. fa_pool off fa \<union> X) off root (mem s) fa"

text \<open>The abstract view of the tables: the frame an address is translated to.\<close>

definition translation :: "u64 \<Rightarrow> u64 \<Rightarrow> machine \<Rightarrow> VirtAddr \<Rightarrow> u64 option" where
  "translation off root s v = walk (mem s) off root (va_path v)"

lemma low_half_canonical: "unat a < 2 ^ 47 \<Longrightarrow> canonical a"
proof -
  assume "unat a < 2 ^ 47"
  then have t: "take_bit 47 a = a"
    by (simp add: word_unat_eq_iff unsigned_take_bit_eq take_bit_nat_eq_self)
  have "\<not> bit a i" if "47 \<le> i" for i
    using bit_take_bit_iff [of 47 a i] that unfolding t by simp
  then show ?thesis by (simp add: canonical_def)
qed

lemma VirtAddr_new_checked_low: "unat a < 2 ^ 47 \<Longrightarrow> VirtAddr_new_checked a = Inr a"
  using low_half_canonical by (simp add: VirtAddr_new_checked_iff)

lemma remaining_distinct: "memory_map_ok (memory_map fa) \<Longrightarrow> distinct (remaining fa)"
  using map_frames_distinct [of "memory_map fa"]
  by (simp add: remaining_def distinct_map)

lemma remaining_frame:
  assumes "memory_map_ok (memory_map fa)" "f \<in> set (remaining fa)"
  shows "frame_ok f"
proof -
  have "f \<in> set (map_frames (memory_map fa))"
    using assms(2) by (auto simp: remaining_def dest: in_set_dropD)
  from map_frames_aligned [OF assms(1) this] show ?thesis
    by (simp add: frame_ok_def page_aligned_unat [unfolded page_aligned_def] word_less_nat_alt)
qed

lemma allocate_page_table_Cons:
  assumes ok: "fa_ok off fa" and rem: "remaining fa = f # fs"
  shows "\<exists>fa'. allocate_page_table m fa = Done (Inr (f + off), PageTable_clear (f + off) m, fa') \<and>
    remaining fa' = fs \<and> fa_ok off fa'"
proof -
  have mm: "memory_map_ok (memory_map fa)" and f: "unat f + unat off < 2 ^ 47"
    using ok rem by (simp_all add: fa_ok_def)
  obtain fa' where fa': "allocate_frame fa = Done (Some f, fa')" "remaining fa' = fs"
      "memory_map fa' = memory_map fa" "mapping_offset fa' = mapping_offset fa"
    using allocate_frame_ok(1) [OF mm rem] by blast
  have "unat (f + off) < 2 ^ 47" using f by (simp add: unat_word_ariths)
  then have "VirtAddr_new_checked (f + mapping_offset fa') = Inr (f + off)"
    using ok fa'(4) by (simp add: VirtAddr_new_checked_low fa_ok_def)
  then show ?thesis
    using fa' ok rem by (auto simp: allocate_page_table_def fa_ok_def)
qed

lemma allocate_page_table_Nil:
  assumes "fa_ok off fa" "remaining fa = []"
  shows "allocate_page_table m fa = Panic ''Out of memory - failed to allocate frame''"
  using allocate_frame_ok(2) [of fa] assms by (auto simp: allocate_page_table_def fa_ok_def)

lemma allocate_page_table_law:
  assumes ok: "fa_ok off fa" and run: "allocate_page_table m fa = Done (Inr n, m', fa')"
  shows "fa_ok off fa' \<and> m' = PageTable_clear n m \<and> n \<in> fa_pool off fa \<and>
    fa_pool off fa' \<subseteq> fa_pool off fa - {n} \<and> page_aligned n \<and> frame_ok (n - off)"
proof -
  obtain f fs where rem: "remaining fa = f # fs"
    using run allocate_page_table_Nil [OF ok] by (cases "remaining fa") auto
  have n: "n = f + off" and m': "m' = PageTable_clear n m" and fa': "remaining fa' = fs" "fa_ok off fa'"
    using allocate_page_table_Cons [OF ok rem, of m] run by auto
  have mm: "memory_map_ok (memory_map fa)" and al: "off mod 4096 = 0" using ok by (simp_all add: fa_ok_def)
  have frame: "frame_ok f" using remaining_frame [OF mm, of f] rem by simp
  have "f \<notin> set fs" using remaining_distinct [OF mm] rem by simp
  then have "fa_pool off fa' \<subseteq> fa_pool off fa - {n}" by (auto simp: fa_pool_def rem fa' n)
  moreover have "page_aligned n"
  proof -
    have "unat f + unat off < 2 ^ 64" using ok rem by (simp add: fa_ok_def)
    then have "unat n = unat f + unat off" by (simp add: n unat_word_ariths)
    moreover have "unat f mod 4096 = 0" "unat off mod 4096 = 0"
      using frame al by (simp_all add: frame_ok_def page_aligned_unat [unfolded page_aligned_def])
    ultimately show ?thesis by (simp add: page_aligned_unat mod_add_eq [symmetric, of "unat f"])
  qed
  ultimately show ?thesis using fa' m' frame by (simp add: fa_pool_def rem n)
qed

interpretation frames: page_tables_allocator allocate_page_table off "fa_ready off X"
    "\<lambda>fa. fa_pool off fa \<union> X" "\<lambda>fa. length (remaining fa)" for off X
proof unfold_locales
  fix fa m n m' fa'
  assume ok: "fa_ready off X fa" and run: "allocate_page_table m fa = Done (Inr n, m', fa')"
  then show "fa_ready off X fa' \<and> m' = PageTable_clear n m \<and> n \<in> fa_pool off fa \<union> X \<and>
      fa_pool off fa' \<union> X \<subseteq> fa_pool off fa \<union> X - {n} \<and> page_aligned n \<and> frame_ok (n - off)"
    using allocate_page_table_law [OF _ run, of off] by (auto simp: fa_ready_def)
next
  fix fa m e m' fa'
  assume ok: "fa_ready off X fa" and run: "allocate_page_table m fa = Done (Inl e, m', fa')"
  then have "fa_ok off fa" by (simp add: fa_ready_def)
  then show "fa_ready off X fa' \<and> m' = m \<and> fa_pool off fa' \<union> X \<subseteq> fa_pool off fa \<union> X"
    using run allocate_page_table_Nil [of off fa m] allocate_page_table_Cons [of off fa _ _ m]
    by (cases "remaining fa") auto
next
  fix fa m
  assume "fa_ready off X fa" "0 < length (remaining fa)"
  then show "\<exists>n m' fa'. allocate_page_table m fa = Done (Inr n, m', fa') \<and>
      length (remaining fa) = Suc (length (remaining fa'))"
    using allocate_page_table_Cons [of off fa _ _ m] by (cases "remaining fa") (auto simp: fa_ready_def)
qed

end
