(* ===== verification/Memory.thy ===== *)
theory Memory
  imports Paging_Frames
begin

text \<open>
  The kernel's view of its own page tables (\<^verbatim>\<open>src/memory.rs\<close>): the level-4 table
  named by \<open>cr3\<close>, read through the direct mapping at \<open>VIRT_MAPPING_OFFSET\<close>, and the
  software walk \<open>translate_addr\<close>. The register \<open>cr3\<close> is an argument.
\<close>

definition VIRT_MAPPING_OFFSET :: u64 where
  "VIRT_MAPPING_OFFSET = 0x18000000000"

definition active_level_4_table :: "u64 \<Rightarrow> u64" where
  "active_level_4_table cr3 = VIRT_MAPPING_OFFSET + (cr3 AND 0x000ffffffffff000)"

primrec translate_levels :: "(u64 \<Rightarrow> u64) \<Rightarrow> u64 \<Rightarrow> u16 list \<Rightarrow> u64 option outcome" where
  "translate_levels m frame [] = Done (Some frame)"
| "translate_levels m frame (index # table_indexes) =
     bindO (PageTable_index (frame + VIRT_MAPPING_OFFSET) index) (\<lambda>entry.
       if is_present (m entry) then translate_levels m (pte_addr (m entry)) table_indexes
       else Done None)"

definition translate_addr_inner :: "u64 \<Rightarrow> (u64 \<Rightarrow> u64) \<Rightarrow> VirtAddr \<Rightarrow> u64 option outcome" where
  "translate_addr_inner cr3 m addr =
     bindO (translate_levels m (cr3 AND 0x000ffffffffff000)
        [p4_index addr, p3_index addr, p2_index addr, p1_index addr]) (\<lambda>r.
       case r of None \<Rightarrow> Done None | Some frame \<Rightarrow> Done (Some (frame + ucast (get_page_offset addr))))"

definition translate_addr :: "u64 \<Rightarrow> (u64 \<Rightarrow> u64) \<Rightarrow> VirtAddr \<Rightarrow> u64 option outcome" where
  "translate_addr cr3 m addr = translate_addr_inner cr3 m addr"

section \<open>Pages of canonical addresses\<close>

lemma bit_page_mask: "bit (0xfffffffffffff000 :: int) i \<longleftrightarrow> 12 \<le> i \<and> i < 64"
proof -
  have "(0xfffffffffffff000 :: int) = push_bit 12 (mask 52)" by (simp add: mask_eq_exp_minus_1)
  then show ?thesis by (simp only: bit_push_bit_iff bit_mask_iff) auto
qed

lemma bit_align_down: "bit (align_down v) i \<longleftrightarrow> 12 \<le> i \<and> i < 64 \<and> bit v (min i 47)"
  by (auto simp: align_down_def VirtAddr_bitand_def bit_simps bit_page_mask min_def)

lemma canonical_align_down [simp]: "canonical (align_down v)"
  by (simp add: align_down_def VirtAddr_bitand_def)

lemma va_path_align_down [simp]: "va_path (align_down v) = va_path v"
  by (simp add: va_path_def word_bits_iff bit_simps bit_align_down min_def)

lemma aligned_bits: "v mod 4096 = 0 \<Longrightarrow> i < 12 \<Longrightarrow> \<not> bit v i" for v :: u64
  by (metis bit_0_eq bit_take_bit_iff bot_apply bot_bool_def take_bit_eq_mod [of 12 v, simplified])

lemma align_down_aligned [simp]:
  assumes "canonical v" "v mod 4096 = 0" shows "align_down v = v"
proof (rule bit_word_eqI)
  fix i :: nat assume "i < LENGTH(64)"
  then show "bit (align_down v) i = bit v i"
    using aligned_bits [OF assms(2), of i] canonicalD [OF assms(1), of i]
    by (auto simp: bit_align_down min_def not_less [symmetric])
qed

lemma va_path_eq_iff:
  assumes "canonical v" "canonical w"
  shows "va_path v = va_path w \<longleftrightarrow> align_down v = align_down w"
proof
  assume eq: "va_path v = va_path w"
  have z: "get_page_offset (align_down u) = 0" for u
    by (rule bit_word_eqI) (simp add: bit_simps bit_align_down)
  have "align_down v = align_down w"
    using vaddr_decompose [of "align_down v"] vaddr_decompose [of "align_down w"] eq z
      va_path_align_down [of v] va_path_align_down [of w]
    by (simp add: va_path_def)
  then show "align_down v = align_down w" .
next
  assume "align_down v = align_down w"
  then show "va_path v = va_path w" by (metis va_path_align_down)
qed

lemma valid_va_path_length [simp]: "length (va_path v) = 4"
  by (simp add: va_path_def)

lemma same_page_iff:
  "canonical v \<Longrightarrow> canonical virt \<Longrightarrow> virt mod 4096 = 0 \<Longrightarrow> va_path v = va_path virt \<longleftrightarrow> align_down v = virt"
  by (simp add: va_path_eq_iff)

section \<open>The walks of the code compute the translation\<close>

lemma get_physical_address_walk:
  "get_physical_address m l4 virt = Done (walk m 0 l4 (va_path virt))"
  by (simp add: get_physical_address_def walk_def va_path_def Let_def)

lemma walk_Cons:
  "p \<noteq> [] \<Longrightarrow> walk m off t (i # p) =
     (if is_present (m (cell t i)) then walk m off (pte_addr (m (cell t i)) + off) p else None)"
  by (simp add: walk_def Let_def cong: option.case_cong)

lemma walk_single:
  "walk m off t [i] = (if is_present (m (cell t i)) then Some (pte_addr (m (cell t i))) else None)"
  by (simp add: walk_def Let_def)

lemma translate_levels_walk:
  "valid_path p \<Longrightarrow> i < ENTRY_COUNT \<Longrightarrow>
     translate_levels m frame (p @ [i]) = Done (walk m VIRT_MAPPING_OFFSET (frame + VIRT_MAPPING_OFFSET) (p @ [i]))"
  by (induction p arbitrary: frame) (simp_all add: walk_Cons walk_single)

lemma translate_addr_walk:
  "translate_addr cr3 m addr = Done (map_option (\<lambda>f. f + ucast (get_page_offset addr))
      (walk m VIRT_MAPPING_OFFSET (active_level_4_table cr3) (va_path addr)))"
  using translate_levels_walk [of "[p4_index addr, p3_index addr, p2_index addr]" "p1_index addr" m
      "cr3 AND 0x000ffffffffff000"]
  by (simp add: translate_addr_def translate_addr_inner_def va_path_def active_level_4_table_def
      add.commute option.case_eq_if map_option_case)

section \<open>Empty tables\<close>

lemma pt_tree_empty:
  assumes "page_aligned root" "\<forall>i<ENTRY_COUNT. \<not> is_present (m (cell root i))"
  shows "pt_tree m off root" "tables m off root = {root}"
proof -
  have at: "table_at m off root p = (if p = [] then Some root else None)" if "valid_path p" for p
    using assms(2) that by (cases p) (auto simp: Let_def)
  show "pt_tree m off root"
    using assms(1) at by (auto simp: pt_tree_def split: if_splits)
  show "tables m off root = {root}"
    using at by (auto simp: tables_def split: if_splits intro: exI [of _ "[]"])
qed

lemma paging_ok_empty:
  assumes "fa_ready off X fa" "page_aligned root" "root \<notin> fa_pool off fa \<union> X"
    "\<forall>i<ENTRY_COUNT. \<not> is_present (mem s (cell root i))"
  shows "paging_ok off X root s fa"
  using assms pt_tree_empty [OF assms(2,4), of off] by (simp add: paging_ok_def pt_ready_def)

section \<open>What mapping an address does\<close>

lemma map_address_update:
  assumes ok: "paging_ok off X root s fa" and phys: "frame_ok phys" and virt: "canonical virt"
    and run: "map_address_impl root virt phys allocate_page_table mode off s fa = Done (Inr (), s', fa')"
  shows "paging_ok off X root s' fa'"
    and "canonical v \<Longrightarrow>
      translation off root s' v = (if align_down v = virt then Some phys else translation off root s v)"
proof -
  have al: "virt mod 4096 = 0"
    using run by (auto simp: map_address_impl_def split: if_splits)
  show "paging_ok off X root s' fa'"
    "canonical v \<Longrightarrow>
      translation off root s' v = (if align_down v = virt then Some phys else translation off root s v)"
    using frames.map_Ok [OF ok [unfolded paging_ok_def] phys run] al virt
    by (simp_all add: paging_ok_def translation_def same_page_iff)
qed

text \<open>
  C1. A successful mapping call, in either mode and at any offset, updates the
  translation at exactly one page: every canonical address of the page of \<open>virt\<close> is
  translated to \<open>phys\<close>, every other canonical address as before; the tables stay a
  tree that holds no frame the allocator has left and no frame in use elsewhere.
\<close>

theorem map_address_refines:
  assumes ok: "paging_ok off X root s fa" and phys: "frame_ok phys" and virt: "canonical virt"
    and run: "map_address_impl root virt phys allocate_page_table mode off s fa = Done (Inr (), s', fa')"
  shows "paging_ok off X root s' fa' \<and>
    (\<forall>v. canonical v \<longrightarrow>
       translation off root s' v = (if align_down v = virt then Some phys else translation off root s v))"
  using map_address_update [OF ok phys virt run] by blast

text \<open>
  C16. When a mapping call reports an error, no address changes its translation
  and the invariant of the tables still holds, whatever tables were added on the way; and
  the error has a cause: an address was not page aligned, or the page was
  mapped to another frame.
\<close>

theorem map_address_error:
  assumes ok: "paging_ok off X root s fa"
    and run: "map_address_impl root virt phys allocate_page_table mode off s fa = Done (Inl e, s', fa')"
  shows "paging_ok off X root s' fa' \<and> translation off root s' = translation off root s \<and>
    (virt mod 4096 \<noteq> 0 \<or> phys mod 4096 \<noteq> 0 \<or>
      (\<exists>f. translation off root s virt = Some f \<and> f \<noteq> phys))"
proof -
  have no_err: "allocate_page_table m a1 \<noteq> Done (Inl e, m1, a2)" for m a1 m1 a2
    by (auto simp: allocate_page_table_def outcome_simps)
  show ?thesis
    using frames.map_Err [OF ok [unfolded paging_ok_def] run] no_err
    by (auto simp: paging_ok_def translation_def same_walks_def)
qed

text \<open>
  C17. A call on aligned addresses returns \<open>Ok\<close> as soon as the
  allocator has three frames left (one for each table level that may be missing) and the page
  is unmapped, mapped to the same frame, or being remapped: it neither fails nor panics.
\<close>

theorem map_address_succeeds:
  assumes ok: "paging_ok off X root s fa" and avail: "3 \<le> length (remaining fa)"
    and al: "virt mod 4096 = 0" "phys mod 4096 = 0"
    and free: "mode = Remapping \<or> translation off root s virt \<in> {None, Some phys}"
  shows "\<exists>s' fa'. map_address_impl root virt phys allocate_page_table mode off s fa = Done (Inr (), s', fa')"
  using frames.map_enough [OF ok [unfolded paging_ok_def] avail al, of mode] free
  by (auto simp: translation_def)

text \<open>
  C18. A page that is mapped is never silently remapped: without
  \<open>Remapping\<close> the call leaves memory, allocator and TLB as they are, and
  succeeds exactly if the page is mapped to the requested frame already.
\<close>

theorem map_address_conflict:
  assumes "translation off root s virt = Some f" "virt mod 4096 = 0" "phys mod 4096 = 0"
  shows "map_address_with_offset root virt phys allocate_page_table off s fa =
    Done (if f = phys then Inr () else Inl ''this virtual address already mapped to another frame'', s, fa)"
  using map_present [of s off root virt f phys allocate_page_table fa] assms
  by (simp add: map_address_with_offset_def translation_def)

text \<open>
  C4. The kernel's software walk reads back what was mapped: after a successful
  \<open>map_address_with_offset\<close> into the active level-4 table, \<open>translate_addr\<close> gives, for
  every canonical address of the page, the frame plus the offset of the address in the page, and for
  every other canonical address what it gave before.
\<close>

theorem translate_addr_after_map:
  assumes ok: "paging_ok VIRT_MAPPING_OFFSET X (active_level_4_table cr3) s fa"
    and phys: "frame_ok phys" and virt: "canonical virt" and v: "canonical v"
    and run: "map_address_with_offset (active_level_4_table cr3) virt phys allocate_page_table
        VIRT_MAPPING_OFFSET s fa = Done (Inr (), s', fa')"
  shows "translate_addr cr3 (mem s') v =
    (if align_down v = virt then Done (Some (phys + ucast (get_page_offset v))) else translate_addr cr3 (mem s) v)"
proof -
  have al: "virt mod 4096 = 0"
    using run by (auto simp: map_address_with_offset_def map_address_impl_def split: if_splits)
  show ?thesis
    using frames.map_Ok(2) [OF ok [unfolded paging_ok_def] phys run [unfolded map_address_with_offset_def],
        of "va_path v"] al virt v
    by (simp add: translate_addr_walk same_page_iff)
qed

section \<open>Examples\<close>

text \<open>
  An allocator over one free region of sixteen frames at \<open>0x100000\<close>, and a machine whose memory is
  zero: the tables rooted at any aligned address outside the pool are empty.
\<close>

definition example_allocator :: "u64 \<Rightarrow> FrameAllocator" where
  "example_allocator off = FrameAllocator_new
     \<lparr>entries = [\<lparr>region_ty = Free, region_addr = 0x100000, page_count = 16\<rparr>], next_free_entry_idx = 1\<rparr> off 0"

definition example_machine :: machine where
  "example_machine = \<lparr>mem = \<lambda>_. 0, invlpgs = []\<rparr>"

lemma upt_16: "[0..<16] = [0, 1, 2, 3, 4, 5, 6, 7, 8, 9, 10, 11, 12, 13, 14, 15 :: nat]"
  by (simp add: upt_rec)

lemma example_remaining:
  "remaining (example_allocator off) =
     [0x100000, 0x101000, 0x102000, 0x103000, 0x104000, 0x105000, 0x106000, 0x107000,
      0x108000, 0x109000, 0x10a000, 0x10b000, 0x10c000, 0x10d000, 0x10e000, 0x10f000]"
  by (simp add: example_allocator_def FrameAllocator_new_def remaining_def map_frames_def free_regions_def
      next_free_entry_index_def region_frames_def step_by_4096_def upt_16)

lemma example_fa_ok:
  "off mod 4096 = 0 \<Longrightarrow> unat off < 2 ^ 46 \<Longrightarrow> fa_ok off (example_allocator off)"
  by (simp add: fa_ok_def example_remaining)
    (simp add: example_allocator_def FrameAllocator_new_def memory_map_ok_def free_regions_def
      next_free_entry_index_def region_ok_def)

lemma example_paging_ok:
  assumes "off mod 4096 = 0" "unat off < 2 ^ 46" "page_aligned root" "root \<notin> fa_pool off (example_allocator off)"
  shows "paging_ok off {} root example_machine (example_allocator off)"
  using assms example_fa_ok [of off]
  by (intro paging_ok_empty) (simp_all add: example_machine_def fa_ready_def)

lemma example_translation: "translation off root example_machine v = None"
  by (simp add: translation_def walk_def va_path_def example_machine_def)

lemma example_active_paging:
  "paging_ok VIRT_MAPPING_OFFSET {} (active_level_4_table 0x5000) example_machine (example_allocator VIRT_MAPPING_OFFSET)"
  by (rule example_paging_ok)
    (simp_all add: VIRT_MAPPING_OFFSET_def active_level_4_table_def page_aligned_def fa_pool_def example_remaining)

lemma example_low_canonical: "canonical 0x7777777b0000" "canonical 0x7777777b0123" "canonical 0x7777777b1000"
  by (simp_all add: low_half_canonical)

lemma example_run:
  "\<exists>s' fa'. map_address_impl (active_level_4_table 0x5000) 0x7777777b0000 0x100000 allocate_page_table
     mode VIRT_MAPPING_OFFSET example_machine (example_allocator VIRT_MAPPING_OFFSET) = Done (Inr (), s', fa')"
  using frames.map_enough [OF example_active_paging [unfolded paging_ok_def], of "0x7777777b0000" "0x100000" mode]
  by (auto simp: example_remaining example_translation [unfolded translation_def])

theorem map_address_refines_witness:
  "\<exists>s' fa'. map_address_impl (active_level_4_table 0x5000) 0x7777777b0000 0x100000 allocate_page_table
       Remapping VIRT_MAPPING_OFFSET example_machine (example_allocator VIRT_MAPPING_OFFSET) = Done (Inr (), s', fa') \<and>
     translation VIRT_MAPPING_OFFSET (active_level_4_table 0x5000) s' 0x7777777b0123 = Some 0x100000 \<and>
     translation VIRT_MAPPING_OFFSET (active_level_4_table 0x5000) s' 0x7777777b1000 = None"
proof -
  obtain s' fa' where run: "map_address_impl (active_level_4_table 0x5000) 0x7777777b0000 0x100000 allocate_page_table
       Remapping VIRT_MAPPING_OFFSET example_machine (example_allocator VIRT_MAPPING_OFFSET) = Done (Inr (), s', fa')"
    using example_run by blast
  have "align_down 0x7777777b0123 = 0x7777777b0000" "align_down 0x7777777b1000 = 0x7777777b1000"
    by (simp_all add: align_down_def VirtAddr_bitand_def VirtAddr_new_def)
  then show ?thesis
    using map_address_refines [OF example_active_paging _ example_low_canonical(1) run] run example_low_canonical
      example_translation
    by (auto simp: frame_ok_def)
qed

theorem map_address_error_witness:
  "map_address_impl (active_level_4_table 0x5000) 0x7777777b0123 0x100000 allocate_page_table
       CheckFrameIsFree VIRT_MAPPING_OFFSET example_machine (example_allocator VIRT_MAPPING_OFFSET) =
     Done (Inl ''Virtual address must be aligned!'', example_machine, example_allocator VIRT_MAPPING_OFFSET) \<and>
   paging_ok VIRT_MAPPING_OFFSET {} (active_level_4_table 0x5000) example_machine (example_allocator VIRT_MAPPING_OFFSET)"
proof -
  have run: "map_address_impl (active_level_4_table 0x5000) 0x7777777b0123 0x100000 allocate_page_table
       CheckFrameIsFree VIRT_MAPPING_OFFSET example_machine (example_allocator VIRT_MAPPING_OFFSET) =
     Done (Inl ''Virtual address must be aligned!'', example_machine, example_allocator VIRT_MAPPING_OFFSET)"
    by (simp add: map_address_impl_def)
  from map_address_error [OF example_active_paging run] run show ?thesis by simp
qed

theorem map_address_succeeds_witness:
  "\<exists>s' fa'. map_address_impl (active_level_4_table 0x5000) 0x7777777b0000 0x100000 allocate_page_table
     CheckFrameIsFree VIRT_MAPPING_OFFSET example_machine (example_allocator VIRT_MAPPING_OFFSET) = Done (Inr (), s', fa')"
  by (rule map_address_succeeds [OF example_active_paging]) (simp_all add: example_remaining example_translation)

text \<open>Tables whose every entry points back to the frame \<open>0x1000\<close>: each page is mapped to that frame.\<close>

lemma example_recursive: "translation 0 0x1000 \<lparr>mem = \<lambda>_. 0x1001, invlpgs = []\<rparr> v = Some 0x1000"
  by (simp add: translation_def walk_def va_path_def is_present_iff pte_addr_def)

theorem map_address_conflict_witness:
  "map_address_with_offset 0x1000 0x7777777b0000 0x2000 allocate_page_table 0
       \<lparr>mem = \<lambda>_. 0x1001, invlpgs = []\<rparr> (example_allocator 0) =
     Done (Inl ''this virtual address already mapped to another frame'',
       \<lparr>mem = \<lambda>_. 0x1001, invlpgs = []\<rparr>, example_allocator 0)"
  using map_address_conflict [OF example_recursive, of "0x7777777b0000" "0x2000" "example_allocator 0"] by simp

theorem translate_addr_after_map_witness:
  "\<exists>s' fa'. map_address_with_offset (active_level_4_table 0x5000) 0x7777777b0000 0x100000 allocate_page_table
       VIRT_MAPPING_OFFSET example_machine (example_allocator VIRT_MAPPING_OFFSET) = Done (Inr (), s', fa') \<and>
     translate_addr 0x5000 (mem s') 0x7777777b0123 = Done (Some 0x100123)"
proof -
  obtain s' fa' where run: "map_address_with_offset (active_level_4_table 0x5000) 0x7777777b0000 0x100000
       allocate_page_table VIRT_MAPPING_OFFSET example_machine (example_allocator VIRT_MAPPING_OFFSET) =
       Done (Inr (), s', fa')"
    using example_run unfolding map_address_with_offset_def by blast
  have "align_down 0x7777777b0123 = 0x7777777b0000" "get_page_offset 0x7777777b0123 = 0x123"
    by (simp_all add: align_down_def VirtAddr_bitand_def VirtAddr_new_def get_page_offset_def)
  then show ?thesis
    using translate_addr_after_map [OF example_active_paging _ example_low_canonical(1,2) run] run
    by (auto simp: frame_ok_def)
qed

end
