(* ===== verification/Byte_Order.thy ===== *)
theory Byte_Order
  imports Ferr_Prelude
begin

text \<open>
  Structures that the code reads by casting a pointer to bytes: little-endian words, the bytes of
  16-bit buffers, and \<open>mapO\<close>, a loop whose rounds may panic.
\<close>

section \<open>Little-endian words\<close>

primrec le_word :: "u8 list \<Rightarrow> 'a::len word" where
  "le_word [] = 0"
| "le_word (b # bs) = push_bit 8 (le_word bs) OR ucast b"

definition le_bytes :: "nat \<Rightarrow> 'a::len word \<Rightarrow> u8 list" where
  "le_bytes n w = map (\<lambda>i. ucast (drop_bit (8 * i) w)) [0..<n]"

lemma length_le_bytes [simp]: "length (le_bytes n w) = n"
  by (simp add: le_bytes_def)

lemma bit_le_word:
  "bit (le_word bs :: 'a::len word) i \<longleftrightarrow> i < LENGTH('a) \<and> i div 8 < length bs \<and> bit (bs ! (i div 8)) (i mod 8)"
proof (induction bs arbitrary: i)
  case (Cons b bs)
  show ?case
  proof (cases "i < 8")
    case True
    then show ?thesis by (auto simp: bit_simps)
  next
    case False
    then obtain k where "i = 8 + k" by (metis le_iff_add not_less)
    moreover have "(8 + k) div 8 = Suc (k div 8)" by simp
    ultimately show ?thesis using Cons.IH [of k] bit_imp_le_length [of b i] by (auto simp: bit_simps)
  qed
qed simp

lemma le_word_le_bytes:
  fixes w :: "'a::len word"
  assumes "LENGTH('a) \<le> 8 * n"
  shows "le_word (le_bytes n w) = w"
proof (rule bit_word_eqI)
  fix i assume i: "i < LENGTH('a)"
  then have "i div 8 < n" using assms by (simp add: less_mult_imp_div_less mult.commute)
  moreover have "8 * (i div 8) + i mod 8 = i" by simp
  ultimately show "bit (le_word (le_bytes n w) :: 'a word) i = bit w i"
    using i by (simp add: bit_le_word le_bytes_def bit_simps del: mult_div_mod_eq div_mult_mod_eq)
qed

text \<open>A field of \<open>n\<close> bytes at offset \<open>off\<close>.\<close>

definition le_field :: "u8 list \<Rightarrow> nat \<Rightarrow> nat \<Rightarrow> 'a::len word" where
  "le_field bs off n = le_word (take n (drop off bs))"

lemma le_field_skip: "length xs \<le> off \<Longrightarrow> le_field (xs @ ys) off n = le_field ys (off - length xs) n"
  by (simp add: le_field_def)

lemma le_field_Cons: "0 < off \<Longrightarrow> le_field (x # ys) off n = le_field ys (off - 1) n"
  by (simp add: le_field_def drop_Cons')

lemma le_field_byte: "le_field (x # ys) 0 1 = x"
  by (simp add: le_field_def)

lemma le_field_here:
  fixes w :: "'a::len word"
  shows "LENGTH('a) \<le> 8 * n \<Longrightarrow> le_field (le_bytes n w @ ys) 0 n = w"
  by (simp add: le_field_def le_word_le_bytes)

section \<open>Buffers of 16-bit words\<close>

definition le_bytes16 :: "u16 list \<Rightarrow> u8 list" where
  "le_bytes16 ws = concat (map (le_bytes 2) ws)"

lemma length_le_bytes16 [simp]: "length (le_bytes16 ws) = 2 * length ws"
  by (induction ws) (simp_all add: le_bytes16_def)

text \<open>The words whose bytes are given.\<close>

fun words16 :: "u8 list \<Rightarrow> u16 list" where
  "words16 (a # b # bs) = le_word [a, b] # words16 bs"
| "words16 _ = []"

lemma le_bytes_le_word2: "le_bytes 2 (le_word [a, b] :: u16) = [a, b]"
proof -
  have "ucast (le_word [a, b] :: u16) = a" "ucast (drop_bit 8 (le_word [a, b] :: u16)) = b"
    by (rule bit_word_eqI; auto simp: bit_simps bit_le_word dest: bit_imp_le_length)+
  then show ?thesis by (simp add: le_bytes_def upt_rec)
qed

lemma le_bytes16_words16: "even (length bs) \<Longrightarrow> le_bytes16 (words16 bs) = bs"
  by (induction bs rule: words16.induct) (simp_all add: le_bytes16_def le_bytes_le_word2 del: le_word.simps)

lemma length_words16: "length (words16 bs) = length bs div 2"
  by (induction bs rule: words16.induct) simp_all

section \<open>Memory behind a buffer\<close>

text \<open>\<open>n\<close> bytes from offset \<open>off\<close> of a buffer; \<open>beyond\<close> is the memory behind its end.\<close>

definition bytes_at :: "(nat \<Rightarrow> u8) \<Rightarrow> u8 list \<Rightarrow> nat \<Rightarrow> nat \<Rightarrow> u8 list" where
  "bytes_at beyond bs off n =
     map (\<lambda>k. if k < length bs then bs ! k else beyond (k - length bs)) [off..<off + n]"

lemma length_bytes_at [simp]: "length (bytes_at beyond bs off n) = n"
  by (simp add: bytes_at_def)

lemma bytes_at_inside: "off + n \<le> length bs \<Longrightarrow> bytes_at beyond bs off n = take n (drop off bs)"
  by (rule nth_equalityI) (simp_all add: bytes_at_def)

section \<open>Loops\<close>

primrec mapO :: "('a \<Rightarrow> 'b outcome) \<Rightarrow> 'a list \<Rightarrow> 'b list outcome" where
  "mapO f [] = Done []"
| "mapO f (x # xs) = bindO (f x) (\<lambda>y. bindO (mapO f xs) (\<lambda>ys. Done (y # ys)))"

lemma mapO_Done: "(\<And>x. x \<in> set xs \<Longrightarrow> f x = Done (g x)) \<Longrightarrow> mapO f xs = Done (map g xs)"
  by (induction xs) simp_all

lemma mapO_map: "mapO f (map g xs) = mapO (\<lambda>x. f (g x)) xs"
  by (induction xs) simp_all

primrec forO :: "('i \<Rightarrow> 's \<Rightarrow> 's outcome) \<Rightarrow> 'i list \<Rightarrow> 's \<Rightarrow> 's outcome" where
  "forO f [] s = Done s"
| "forO f (i # is) s = bindO (f i s) (\<lambda>s. forO f is s)"

lemma forO_append: "forO f (is @ js) s = bindO (forO f is s) (\<lambda>s. forO f js s)"
  by (induction "is" arbitrary: s) (simp_all add: bindO_assoc)

text \<open>A loop whose rounds succeed and keep an invariant.\<close>

lemma forO_inv:
  assumes "\<And>i s. i \<in> set is \<Longrightarrow> I s \<Longrightarrow> \<exists>s'. f i s = Done s' \<and> I s'" "I s"
  shows "\<exists>s'. forO f is s = Done s' \<and> I s'"
  using assms
proof (induction "is" arbitrary: s)
  case (Cons i "is")
  then obtain s1 where "f i s = Done s1" "I s1" by (meson list.set_intros(1))
  then show ?case using Cons.IH [of s1] Cons.prems(1) by simp
qed simp

text \<open>A loop over a range, with an invariant of the round.\<close>

lemma forO_upt:
  assumes "\<And>k s. k < n \<Longrightarrow> P k s \<Longrightarrow> \<exists>s'. f k s = Done s' \<and> P (Suc k) s'" "P 0 s"
  shows "\<exists>s'. forO f [0..<n] s = Done s' \<and> P n s'"
  using assms(1)
proof (induction n)
  case 0
  then show ?case using assms(2) by simp
next
  case (Suc n)
  then obtain s1 where "forO f [0..<n] s = Done s1" "P n s1" by (meson less_SucI)
  then show ?case using Suc.prems [of n s1] by (auto simp: forO_append)
qed

end
