(* ===== verification/Map_Pages.thy ===== *)
theory Map_Pages
  imports Memory Byte_Order
begin

text \<open>
  Mapping many pages, for the loops of the loader, the heap and the ACPI code that call \<open>map_address\<close> for one page after
  another. A page needs new tables only if its level-1 table is missing, so that a loop needs three frames for each
  level-1 table it reaches, however many pages it maps there.
\<close>

section \<open>Pages\<close>

lemma unat_align_down:
  assumes "canonical v" shows "unat (align_down v) = unat v div 4096 * 4096"
proof -
  have "align_down v = push_bit 12 (drop_bit 12 v)"
  proof (rule bit_word_eqI)
    fix i :: nat assume "i < LENGTH(64)"
    then show "bit (align_down v) i = bit (push_bit 12 (drop_bit 12 v)) i"
      using canonicalD [OF assms, of i] by (auto simp: bit_align_down bit_simps min_def)
  qed
  moreover have "unat v div 4096 * 4096 < 2 ^ 64"
    by (rule le_less_trans [OF div_times_less_eq_dividend]) simp
  ultimately show ?thesis
    by (simp add: push_bit_eq_mult drop_bit_eq_div unat_word_ariths unat_div)
qed

lemma align_down_iff:
  assumes "canonical v" "page_aligned h"
  shows "align_down v = h \<longleftrightarrow> unat h \<le> unat v \<and> unat v < unat h + 4096"
proof -
  obtain k where k: "unat h = 4096 * k" using assms(2) by (auto simp: page_aligned_unat elim!: dvdE)
  have "align_down v = h \<longleftrightarrow> unat v div 4096 * 4096 = 4096 * k"
    by (simp add: word_unat_eq_iff unat_align_down [OF assms(1)] k)
  also have "\<dots> \<longleftrightarrow> unat v div 4096 = k" by auto
  also have "\<dots> \<longleftrightarrow> 4096 * k \<le> unat v \<and> unat v < 4096 * k + 4096" by auto
  finally show ?thesis by (simp add: k)
qed

lemma VirtAddr_offset_low:
  assumes "unat a + unat k < 2 ^ 47"
  shows "VirtAddr_offset a k = Inr (a + k)" "unat (a + k) = unat a + unat k"
proof -
  show u: "unat (a + k) = unat a + unat k" using assms by (simp add: unat_word_ariths)
  have "canonical (a + k)" using assms u by (intro low_half_canonical) simp
  then show "VirtAddr_offset a k = Inr (a + k)"
    using assms by (simp add: VirtAddr_offset_def overflowing_add_def)
qed

text \<open>A frame taken from the allocator can be reserved: it will never become a page table.\<close>

lemma paging_ok_reserve:
  assumes ok: "paging_ok off X root s fa" and rem: "remaining fa = f # fs"
  shows "\<exists>fa'. allocate_frame fa = Done (Some f, fa') \<and> remaining fa' = fs \<and> frame_ok f \<and> f + off \<notin> X \<and>
    paging_ok off (insert (f + off) X) root s fa'"
proof -
  have fa: "fa_ok off fa" and mm: "memory_map_ok (memory_map fa)"
    and sep: "fa_pool off fa \<inter> X = {}" "tables (mem s) off root \<inter> (fa_pool off fa \<union> X) = {}"
    and tree: "pt_tree (mem s) off root"
    using ok by (auto simp: paging_ok_def pt_ready_def fa_ready_def fa_ok_def)
  obtain fa' where fa': "allocate_frame fa = Done (Some f, fa')" "remaining fa' = fs"
      "memory_map fa' = memory_map fa" "mapping_offset fa' = mapping_offset fa"
    using allocate_frame_ok(1) [OF mm rem] by blast
  have "f \<notin> set fs" using remaining_distinct [OF mm] rem by simp
  then have "fa_pool off fa = insert (f + off) (fa_pool off fa')" "f + off \<notin> fa_pool off fa'"
    by (auto simp: fa_pool_def rem fa')
  moreover have "fa_ok off fa'" using fa fa' rem by (simp add: fa_ok_def)
  ultimately show ?thesis
    using fa' tree sep remaining_frame [OF mm, of f] rem
    by (auto simp: paging_ok_def pt_ready_def fa_ready_def)
qed

section \<open>Tables are never removed\<close>

definition more_tables :: "u64 \<Rightarrow> u64 \<Rightarrow> (u64 \<Rightarrow> u64) \<Rightarrow> (u64 \<Rightarrow> u64) \<Rightarrow> bool" where
  "more_tables off root m m' \<longleftrightarrow>
     (\<forall>q. valid_path q \<longrightarrow> length q \<le> 3 \<longrightarrow> table_at m off root q \<noteq> None \<longrightarrow> table_at m' off root q \<noteq> None)"

lemma more_tables_refl [simp]: "more_tables off root m m"
  by (simp add: more_tables_def)

lemma more_tables_trans: "more_tables off root m m' \<Longrightarrow> more_tables off root m' m'' \<Longrightarrow> more_tables off root m m''"
  by (simp add: more_tables_def)

lemma more_tables_leaf:
  assumes "pt_tree m off root" "table_at m off root p = Some t" "valid_path p" "length p = 3" "i < ENTRY_COUNT"
  shows "more_tables off root m (m(cell t i := v))"
  using table_at_leaf_write [OF assms] by (simp add: more_tables_def)

context page_tables_allocator
begin

lemma next_table_more:
  assumes ready: "pt_ready okA pool off root m a"
    and p: "table_at m off root p = Some t" "valid_path p" "length p \<le> 2" and i: "i < ENTRY_COUNT"
    and run: "create_next_table (cell t i) alloc off m a = Done (Inr t', m', a')"
  shows "more_tables off root m m'"
proof (cases "is_present (m (cell t i))")
  case True
  then show ?thesis using run by (simp add: create_next_table_def)
next
  case absent: False
  have okA: "okA a" and tree: "pt_tree m off root" and sep: "tables m off root \<inter> pool a = {}"
    using ready by (simp_all add: pt_ready_def)
  obtain m1 where al: "alloc m a = Done (Inr t', m1, a')" and m': "m' = m1(cell t i := set_addr (t' - off) (PRESENT OR WRITABLE))"
    using run absent by (cases "alloc m a") (auto simp: create_next_table_def split: sum.splits)
  have A: "m1 = PageTable_clear t' m" "t' \<in> pool a" "page_aligned t'" "frame_ok (t' - off)" using alloc_Ok [OF okA al] by auto
  have "t' \<notin> tables m off root" using A(2) sep by blast
  from table_at_grow [OF tree p i absent A(3) this A(4)] show ?thesis
    by (simp add: more_tables_def m' A(1) grow_def)
qed

text \<open>After a successful call the level-1 table of the page is there.\<close>

lemma map_more:
  assumes ready: "pt_ready okA pool off root (mem s) a"
    and run: "map_address_impl root virt phys alloc mode off s a = Done (Inr (), s', a')"
  shows "more_tables off root (mem s) (mem s') \<and> table_at (mem s') off root [p4_index virt, p3_index virt, p2_index virt] \<noteq> None"
proof -
  note table_at.simps(2) [simp del] and valid_path_def [simp]
  let ?p = "[p4_index virt, p3_index virt, p2_index virt]"
  have al: "virt mod 4096 = 0" "phys mod 4096 = 0"
    using run by (auto simp: map_address_impl_def split: if_splits)
  obtain l3 m1 a1 where c1: "create_next_table (cell root (p4_index virt)) alloc off (mem s) a = Done (Inr l3, m1, a1)"
    using run al by (cases "create_next_table (cell root (p4_index virt)) alloc off (mem s) a") (auto simp: map_address_impl_def split: sum.splits)
  note N1 = next_table [OF ready _ _ _ _ c1, where p = "[]", simplified] and M1 = next_table_more [OF ready _ _ _ _ c1, where p = "[]", simplified]
  obtain l2 m2 a2 where c2: "create_next_table (cell l3 (p3_index virt)) alloc off m1 a1 = Done (Inr l2, m2, a2)"
    using run al c1 by (cases "create_next_table (cell l3 (p3_index virt)) alloc off m1 a1") (auto simp: map_address_impl_def split: sum.splits)
  note N2 = next_table [OF N1(1) N1(3) [OF refl] _ _ _ c2, simplified] and M2 = next_table_more [OF N1(1) N1(3) [OF refl] _ _ _ c2, simplified]
  obtain l1 m3 a3 where c3: "create_next_table (cell l2 (p2_index virt)) alloc off m2 a2 = Done (Inr l1, m3, a3)"
    using run al c1 c2 by (cases "create_next_table (cell l2 (p2_index virt)) alloc off m2 a2") (auto simp: map_address_impl_def split: sum.splits)
  note N3 = next_table [OF N2(1) N2(3) [OF refl] _ _ _ c3, simplified] and M3 = next_table_more [OF N2(1) N2(3) [OF refl] _ _ _ c3, simplified]
  have m: "more_tables off root (mem s) m3" using more_tables_trans [OF M1 more_tables_trans [OF M2 M3]] .
  have l1: "table_at m3 off root ?p = Some l1" using N3(3) [OF refl] by simp
  have tree: "pt_tree m3 off root" using N3(1) by (simp add: pt_ready_def)
  have "(Inr (), s') = map_l1_entry (cell l1 (p1_index virt)) phys mode (s\<lparr>mem := m3\<rparr>)"
    using run al c1 c2 c3 by (auto simp: map_address_impl_def split: prod.splits)
  then have "mem s' = m3 \<or> (\<exists>v. mem s' = m3(cell l1 (p1_index virt) := v))"
    by (auto simp: map_l1_entry_def split: if_splits MappingMode.splits)
  moreover have "more_tables off root m3 (m3(cell l1 (p1_index virt) := v))" for v
    by (rule more_tables_leaf [OF tree l1]) simp_all
  moreover have "more_tables off root m3 m' \<Longrightarrow> table_at m' off root ?p \<noteq> None" for m'
    using l1 by (simp add: more_tables_def)
  ultimately show ?thesis using m more_tables_trans [OF m] l1 by (metis option.distinct(1))
qed

end

text \<open>If the table is there, the call takes no frame.\<close>

lemma map_in_table:
  assumes t: "table_at (mem s) off root [p4_index virt, p3_index virt, p2_index virt] \<noteq> None"
    and al: "virt mod 4096 = 0" "phys mod 4096 = 0"
    and free: "mode = Remapping \<or> walk (mem s) off root (va_path virt) \<in> {None, Some phys}"
  shows "\<exists>s'. map_address_impl root virt phys alloc mode off s a = Done (Inr (), s', a)"
  using t al free
  by (auto simp: walk_def va_path_def map_address_impl_def create_next_table_def map_l1_entry_def Let_def
      split: if_splits option.splits MappingMode.splits)

section \<open>A loop over pages\<close>

text \<open>\<open>map_address\<close> (and its variants) followed by \<open>expect(msg)\<close>.\<close>

definition map_page :: "string \<Rightarrow> MappingMode \<Rightarrow> u64 \<Rightarrow> u64 \<Rightarrow> VirtAddr \<times> u64 \<Rightarrow> machine \<times> FrameAllocator \<Rightarrow> (machine \<times> FrameAllocator) outcome" where
  "map_page msg mode off root x = (\<lambda>(s, fa).
     bindO (map_address_impl root (fst x) (snd x) allocate_page_table mode off s fa) (\<lambda>(r, s, fa).
     bindO (expect msg r) (\<lambda>_. Done (s, fa))))"

definition block_of :: "VirtAddr \<Rightarrow> u16 list" where
  "block_of v = take 3 (va_path v)"

definition present_blocks :: "u64 \<Rightarrow> u64 \<Rightarrow> machine \<Rightarrow> u16 list set" where
  "present_blocks off root s = {q. valid_path q \<and> length q = 3 \<and> table_at (mem s) off root q \<noteq> None}"

lemma block_of_eq: "block_of v = [p4_index v, p3_index v, p2_index v]"
  by (simp add: block_of_def va_path_def)

lemma map_page_run:
  assumes ok: "paging_ok off X root s fa" and x: "canonical v" "v mod 4096 = 0" "frame_ok p"
    and free: "mode = Remapping \<or> translation off root s v \<in> {None, Some p}"
    and frames: "block_of v \<in> present_blocks off root s \<or> 3 \<le> length (remaining fa)"
  shows "\<exists>s' fa'. map_page msg mode off root (v, p) (s, fa) = Done (s', fa') \<and> paging_ok off X root s' fa' \<and>
    (\<forall>w. canonical w \<longrightarrow> translation off root s' w = (if align_down w = v then Some p else translation off root s w)) \<and>
    insert (block_of v) (present_blocks off root s) \<subseteq> present_blocks off root s' \<and>
    length (remaining fa) \<le> length (remaining fa') + (if block_of v \<in> present_blocks off root s then 0 else 3)"
proof -
  have al: "p mod 4096 = 0" using x(3) by (simp add: frame_ok_def)
  have free': "mode = Remapping \<or> walk (mem s) off root (va_path v) \<in> {None, Some p}" using free by (simp add: translation_def)
  have "\<exists>s' fa'. map_address_impl root v p allocate_page_table mode off s fa = Done (Inr (), s', fa') \<and>
      length (remaining fa) \<le> length (remaining fa') + (if block_of v \<in> present_blocks off root s then 0 else 3)"
  proof (cases "block_of v \<in> present_blocks off root s")
    case True
    then show ?thesis
      using map_in_table [of s off root v p mode allocate_page_table fa] x(2) al free' by (auto simp: present_blocks_def block_of_eq)
  next
    case False
    then show ?thesis
      using frames.map_enough [OF ok [unfolded paging_ok_def] _ x(2) al free'] frames by auto
  qed
  then obtain s' fa' where run: "map_address_impl root v p allocate_page_table mode off s fa = Done (Inr (), s', fa')"
    "length (remaining fa) \<le> length (remaining fa') + (if block_of v \<in> present_blocks off root s then 0 else 3)" by blast
  have "more_tables off root (mem s) (mem s')" "table_at (mem s') off root (block_of v) \<noteq> None"
    using frames.map_more [OF ok [unfolded paging_ok_def] run(1)] by (auto simp: block_of_eq)
  then have "insert (block_of v) (present_blocks off root s) \<subseteq> present_blocks off root s'"
    by (auto simp: present_blocks_def more_tables_def block_of_eq)
  then show ?thesis
    using run map_address_update [OF ok x(3, 1) run(1)] by (auto simp: map_page_def)
qed

definition pages_ok :: "u64 \<Rightarrow> u64 \<Rightarrow> machine \<Rightarrow> (VirtAddr \<times> u64) list \<Rightarrow> bool" where
  "pages_ok off root s ps \<longleftrightarrow> (\<forall>v p. (v, p) \<in> set ps \<longrightarrow> canonical v \<and> v mod 4096 = 0 \<and> frame_ok p \<and> translation off root s v \<in> {None, Some p} \<and>
     (\<forall>p'. (v, p') \<in> set ps \<longrightarrow> p' = p))"

definition missing_blocks :: "u64 \<Rightarrow> u64 \<Rightarrow> machine \<Rightarrow> (VirtAddr \<times> u64) list \<Rightarrow> nat" where
  "missing_blocks off root s ps = card ((\<lambda>(v, p). block_of v) ` set ps - present_blocks off root s)"

lemma align_down_aligned_id:
  assumes "canonical v" "v mod 4096 = 0" shows "align_down v = v"
  using align_down_iff [OF assms(1), of v] assms(2) by (simp add: page_aligned_def)

lemma missing_blocks_Cons:
  assumes "insert (block_of v) (present_blocks off root s) \<subseteq> present_blocks off root s'"
  shows "missing_blocks off root s' ps + (if block_of v \<in> present_blocks off root s then 0 else 1) \<le> missing_blocks off root s ((v, p) # ps)"
proof -
  let ?B = "\<lambda>ps. (\<lambda>(v, p). block_of v) ` set ps"
  have "?B ps - present_blocks off root s' \<subseteq> ?B ((v, p) # ps) - present_blocks off root s - {block_of v}" using assms by auto
  then have "missing_blocks off root s' ps \<le> card (?B ((v, p) # ps) - present_blocks off root s - {block_of v})"
    unfolding missing_blocks_def by (intro card_mono) auto
  moreover have "card (?B ((v, p) # ps) - present_blocks off root s - {block_of v}) + 1 = card (?B ((v, p) # ps) - present_blocks off root s)"
    if "block_of v \<notin> present_blocks off root s" using that by (subst card_Diff_singleton) (auto simp: card_gt_0_iff)
  moreover have "card (?B ((v, p) # ps) - present_blocks off root s - {block_of v}) \<le> card (?B ((v, p) # ps) - present_blocks off root s)"
    by (intro card_mono) auto
  ultimately show ?thesis by (auto simp: missing_blocks_def)
qed

lemma pages_ok_step:
  assumes ok: "pages_ok off root s ((v, p) # ps)"
    and upd: "\<And>w. canonical w \<Longrightarrow> translation off root s' w = (if align_down w = v then Some p else translation off root s w)"
  shows "pages_ok off root s' ps"
  unfolding pages_ok_def
proof (intro allI impI)
  fix w q assume w: "(w, q) \<in> set ps"
  have "(w, q) \<in> set ((v, p) # ps)" using w by simp
  from ok [unfolded pages_ok_def, THEN spec, THEN spec, THEN mp, OF this]
  have wq: "canonical w" "w mod 4096 = 0" "frame_ok q" "translation off root s w \<in> {None, Some q}"
    "\<forall>p'. (w, p') \<in> set ((v, p) # ps) \<longrightarrow> p' = q" by blast+
  have vq: "q = p" if "w = v" using wq(5) [THEN spec, of p] that by simp
  have "translation off root s' w \<in> {None, Some q}"
    using upd [OF wq(1)] align_down_aligned_id [OF wq(1, 2)] wq(4) vq by (cases "w = v") simp_all
  then show "canonical w \<and> w mod 4096 = 0 \<and> frame_ok q \<and> translation off root s' w \<in> {None, Some q} \<and> (\<forall>p'. (w, p') \<in> set ps \<longrightarrow> p' = q)"
    using wq by (meson list.set_intros(2))
qed

lemma map_pages_run:
  assumes "paging_ok off X root s fa" "pages_ok off root s ps" "3 * missing_blocks off root s ps \<le> length (remaining fa)"
  shows "\<exists>s' fa'. forO (map_page msg CheckFrameIsFree off root) ps (s, fa) = Done (s', fa') \<and> paging_ok off X root s' fa' \<and>
    present_blocks off root s \<subseteq> present_blocks off root s' \<and>
    length (remaining fa) \<le> length (remaining fa') + 3 * missing_blocks off root s ps \<and>
    (\<forall>w. canonical w \<longrightarrow> translation off root s' w = (case map_of ps (align_down w) of Some p \<Rightarrow> Some p | None \<Rightarrow> translation off root s w))"
  using assms
proof (induction ps arbitrary: s fa)
  case (Cons x ps)
  obtain v p where x: "x = (v, p)" by fastforce
  have vp: "canonical v" "v mod 4096 = 0" "frame_ok p" "translation off root s v \<in> {None, Some p}" "\<And>p'. (v, p') \<in> set ps \<Longrightarrow> p' = p"
    using Cons.prems(2) x by (auto simp: pages_ok_def)
  have cost: "3 * (if block_of v \<in> present_blocks off root s then 0 else 1) \<le> length (remaining fa)"
  proof (cases "block_of v \<in> present_blocks off root s")
    case False
    then have "0 < missing_blocks off root s (x # ps)" unfolding missing_blocks_def x by (subst card_gt_0_iff) auto
    then show ?thesis using Cons.prems(3) by simp
  qed simp
  then have fr: "block_of v \<in> present_blocks off root s \<or> 3 \<le> length (remaining fa)" by (simp split: if_splits)
  obtain s1 fa1 where r: "map_page msg CheckFrameIsFree off root (v, p) (s, fa) = Done (s1, fa1)" "paging_ok off X root s1 fa1"
      "\<And>w. canonical w \<Longrightarrow> translation off root s1 w = (if align_down w = v then Some p else translation off root s w)"
      "insert (block_of v) (present_blocks off root s) \<subseteq> present_blocks off root s1"
      "length (remaining fa) \<le> length (remaining fa1) + (if block_of v \<in> present_blocks off root s then 0 else 3)"
    using map_page_run [OF Cons.prems(1) vp(1-3) disjI2 [OF vp(4)] fr, of msg] by blast
  note mb = missing_blocks_Cons [OF r(4), of ps p]
  have pg: "pages_ok off root s1 ps" by (rule pages_ok_step [OF Cons.prems(2) [unfolded x] r(3)])
  have en: "3 * missing_blocks off root s1 ps \<le> length (remaining fa1)" using mb Cons.prems(3) r(5) x by (auto split: if_splits)
  obtain s' fa' where IH: "forO (map_page msg CheckFrameIsFree off root) ps (s1, fa1) = Done (s', fa')" "paging_ok off X root s' fa'"
      "present_blocks off root s1 \<subseteq> present_blocks off root s'" "length (remaining fa1) \<le> length (remaining fa') + 3 * missing_blocks off root s1 ps"
      "\<And>w. canonical w \<Longrightarrow> translation off root s' w = (case map_of ps (align_down w) of Some p \<Rightarrow> Some p | None \<Rightarrow> translation off root s1 w)"
    using Cons.IH [OF r(2) pg en] by blast
  have "translation off root s' w = (case map_of (x # ps) (align_down w) of Some p \<Rightarrow> Some p | None \<Rightarrow> translation off root s w)" if "canonical w" for w
    using IH(5) [OF that] r(3) [OF that] vp(5) map_of_SomeD [of ps v] by (auto simp: x split: option.splits)
  moreover have "length (remaining fa) \<le> length (remaining fa') + 3 * missing_blocks off root s (x # ps)"
    using IH(4) mb r(5) x by (auto split: if_splits)
  ultimately show ?case using IH(1-3) r(1, 4) x by auto
qed auto

end
