(* ===== verification/Fixed_Size_Block.thy ===== *)
theory Fixed_Size_Block
  imports Ferr_Prelude "HOL-Library.Multiset"
begin

text \<open>
  The kernel heap (\<^verbatim>\<open>shared_lib/src/allocator/fixed_size_block.rs\<close>): nine free lists of
  power-of-two blocks whose nodes live in the free blocks, over a fallback allocator of another
  crate (\<open>linked_list_allocator::Heap\<close>).

  Memory is a store of quadwords indexed by address; a node is one quadword, the address of the
  next node or zero. The fallback allocator is a parameter: its first-fit and deallocation
  functions on memory and on its own state \<open>'h\<close>. What its documentation promises is the predicate
  \<open>fallback_ok\<close>. The mutex around the allocator serialises the calls, so each call is one
  state transition.
\<close>

section \<open>The code\<close>

record Layout =
  layout_size :: usize
  layout_align :: usize

definition is_power_of_two :: "u64 \<Rightarrow> bool" where
  "is_power_of_two n \<longleftrightarrow> n \<noteq> 0 \<and> n AND (n - 1) = 0"

definition from_size_align :: "usize \<Rightarrow> usize \<Rightarrow> Layout option" where
  "from_size_align sz align =
     (if is_power_of_two align \<and> sz \<le> 0x7fffffffffffffff - (align - 1)
      then Some \<lparr>layout_size = sz, layout_align = align\<rparr> else None)"

definition BLOCK_SIZES :: "usize list" where
  "BLOCK_SIZES = [8, 16, 32, 64, 128, 256, 512, 1024, 2048]"

text \<open>\<open>Iterator::position\<close>.\<close>

fun position :: "('a \<Rightarrow> bool) \<Rightarrow> 'a list \<Rightarrow> nat option" where
  "position P [] = None"
| "position P (x # xs) = (if P x then Some 0 else map_option Suc (position P xs))"

definition list_index :: "Layout \<Rightarrow> nat option" where
  "list_index layout =
     (let required_block_size = max (layout_size layout) (layout_align layout)
      in position (\<lambda>s. required_block_size \<le> s) BLOCK_SIZES)"

record 'h FixedSizeBlockAllocator =
  list_heads :: "u64 option list"
  fallback_allocator :: 'h

type_synonym store = "u64 \<Rightarrow> u64"
type_synonym 'h first_fit = "Layout \<Rightarrow> store \<Rightarrow> 'h \<Rightarrow> u64 option \<times> store \<times> 'h"
type_synonym 'h deallocate = "u64 \<Rightarrow> Layout \<Rightarrow> store \<Rightarrow> 'h \<Rightarrow> store \<times> 'h"

definition node_next :: "store \<Rightarrow> u64 \<Rightarrow> u64 option" where
  "node_next m p = (if m p = 0 then None else Some (m p))"

primrec node_repr :: "u64 option \<Rightarrow> u64" where
  "node_repr None = 0"
| "node_repr (Some p) = p"

definition FixedSizeBlockAllocator_new :: "'h \<Rightarrow> 'h FixedSizeBlockAllocator" where
  "FixedSizeBlockAllocator_new heap_empty =
     \<lparr>list_heads = replicate (length BLOCK_SIZES) None, fallback_allocator = heap_empty\<rparr>"

definition FixedSizeBlockAllocator_init ::
    "(usize \<Rightarrow> usize \<Rightarrow> store \<Rightarrow> 'h \<Rightarrow> store \<times> 'h) \<Rightarrow> usize \<Rightarrow> usize \<Rightarrow> store \<Rightarrow> 'h FixedSizeBlockAllocator
      \<Rightarrow> store \<times> 'h FixedSizeBlockAllocator" where
  "FixedSizeBlockAllocator_init heap_init heap_start heap_size m self =
     (let (m, h) = heap_init heap_start heap_size m (fallback_allocator self)
      in (m, self\<lparr>fallback_allocator := h\<rparr>))"

definition fallback_alloc ::
    "'h first_fit \<Rightarrow> Layout \<Rightarrow> store \<Rightarrow> 'h FixedSizeBlockAllocator \<Rightarrow> u64 \<times> store \<times> 'h FixedSizeBlockAllocator" where
  "fallback_alloc allocate_first_fit layout m self =
     (case allocate_first_fit layout m (fallback_allocator self) of
        (Some ptr, m, h) \<Rightarrow> (ptr, m, self\<lparr>fallback_allocator := h\<rparr>)
      | (None, m, h) \<Rightarrow> (0, m, self\<lparr>fallback_allocator := h\<rparr>))"

definition GlobalAlloc_alloc ::
    "'h first_fit \<Rightarrow> Layout \<Rightarrow> store \<Rightarrow> 'h FixedSizeBlockAllocator
      \<Rightarrow> (u64 \<times> store \<times> 'h FixedSizeBlockAllocator) outcome" where
  "GlobalAlloc_alloc allocate_first_fit layout m self =
     (case list_index layout of
        Some index \<Rightarrow>
          (case list_heads self ! index of
             Some node \<Rightarrow>
               Done (node, m(node := 0), self\<lparr>list_heads := (list_heads self)[index := node_next m node]\<rparr>)
           | None \<Rightarrow>
               (let block_size = BLOCK_SIZES ! index; block_align = block_size
                in bindO (expect_some [] (from_size_align block_size block_align)) (\<lambda>layout.
                     Done (fallback_alloc allocate_first_fit layout m self))))
      | None \<Rightarrow> Done (fallback_alloc allocate_first_fit layout m self))"

definition SIZE_OF_ListNode :: usize where "SIZE_OF_ListNode = 8"
definition ALIGN_OF_ListNode :: usize where "ALIGN_OF_ListNode = 8"

definition GlobalAlloc_dealloc ::
    "'h deallocate \<Rightarrow> u64 \<Rightarrow> Layout \<Rightarrow> store \<Rightarrow> 'h FixedSizeBlockAllocator
      \<Rightarrow> (store \<times> 'h FixedSizeBlockAllocator) outcome" where
  "GlobalAlloc_dealloc deallocate ptr layout m self =
     (case list_index layout of
        Some index \<Rightarrow>
          (let new_node = node_repr (list_heads self ! index)
           in if \<not> SIZE_OF_ListNode \<le> BLOCK_SIZES ! index then Panic ''assertion failed''
              else if \<not> ALIGN_OF_ListNode \<le> BLOCK_SIZES ! index then Panic ''assertion failed''
              else Done (m(ptr := new_node), self\<lparr>list_heads := (list_heads self)[index := Some ptr]\<rparr>))
      | None \<Rightarrow>
          (if ptr = 0 then Panic []
           else let (m, h) = deallocate ptr layout m (fallback_allocator self)
                in Done (m, self\<lparr>fallback_allocator := h\<rparr>)))"

section \<open>Size classes\<close>

text \<open>The sizes as numbers, and the size of the block that serves a layout.\<close>

definition block_size :: "nat \<Rightarrow> nat" where "block_size i = 2 ^ (i + 3)"

definition served_size :: "Layout \<Rightarrow> nat" where
  "served_size l = (case list_index l of Some i \<Rightarrow> block_size i | None \<Rightarrow> unat (layout_size l))"

definition served_align :: "Layout \<Rightarrow> nat" where
  "served_align l = (case list_index l of Some i \<Rightarrow> block_size i | None \<Rightarrow> unat (layout_align l))"

text \<open>The invariant of Rust's \<open>Layout\<close> type.\<close>

definition layout_ok :: "Layout \<Rightarrow> bool" where
  "layout_ok l \<longleftrightarrow> (\<exists>k<64. unat (layout_align l) = 2 ^ k)"

lemma less_9_cases: "i < 9 \<Longrightarrow> i \<in> {0, 1, 2, 3, 4, 5, 6, 7, 8::nat}"
  by auto

lemma BLOCK_SIZES_nth: "i < 9 \<Longrightarrow> unat (BLOCK_SIZES ! i) = block_size i"
  using less_9_cases [of i] by (auto simp: BLOCK_SIZES_def block_size_def)

lemma length_BLOCK_SIZES [simp]: "length BLOCK_SIZES = 9"
  by (simp add: BLOCK_SIZES_def)

lemma position_Some:
  "position P xs = Some i \<Longrightarrow> i < length xs \<and> P (xs ! i) \<and> (\<forall>j<i. \<not> P (xs ! j))"
proof (induction xs arbitrary: i)
  case (Cons x xs)
  then show ?case by (cases i) (auto split: if_splits simp: less_Suc_eq_0_disj)
qed simp

lemma position_None: "position P xs = None \<Longrightarrow> i < length xs \<Longrightarrow> \<not> P (xs ! i)"
proof (induction xs arbitrary: i)
  case (Cons x xs)
  then show ?case by (cases i) (auto split: if_splits)
qed simp

lemma list_index_Some:
  assumes "list_index l = Some i"
  shows "i < 9" "unat (layout_size l) \<le> block_size i" "unat (layout_align l) \<le> block_size i"
proof -
  have "position (\<lambda>s. max (layout_size l) (layout_align l) \<le> s) BLOCK_SIZES = Some i"
    using assms by (simp only: list_index_def Let_def)
  from position_Some [OF this] have "i < 9 \<and> layout_size l \<le> BLOCK_SIZES ! i \<and> layout_align l \<le> BLOCK_SIZES ! i"
    by simp
  then show "i < 9" "unat (layout_size l) \<le> block_size i" "unat (layout_align l) \<le> block_size i"
    using BLOCK_SIZES_nth [of i] by (auto simp: word_le_nat_alt)
qed

lemma block_size_from_size_align:
  "i < 9 \<Longrightarrow> from_size_align (BLOCK_SIZES ! i) (BLOCK_SIZES ! i) =
     Some \<lparr>layout_size = BLOCK_SIZES ! i, layout_align = BLOCK_SIZES ! i\<rparr>"
  using less_9_cases [of i] by (auto simp: BLOCK_SIZES_def from_size_align_def is_power_of_two_def)

lemma served_align_dvd:
  assumes "layout_ok l" shows "unat (layout_align l) dvd served_align l"
proof (cases "list_index l")
  case (Some i)
  obtain k where k: "unat (layout_align l) = 2 ^ k" using assms by (auto simp: layout_ok_def)
  then have "(2::nat) ^ k \<le> 2 ^ (i + 3)" using list_index_Some(3) [OF Some] by (simp add: block_size_def)
  then have "k \<le> i + 3" by (rule power_le_imp_le_exp [rotated]) simp
  then show ?thesis using Some k by (simp add: served_align_def block_size_def le_imp_power_dvd)
qed (simp add: served_align_def)

lemma served_size_le: "unat (layout_size l) \<le> served_size l"
  using list_index_Some(2) [of l] by (auto simp: served_size_def split: option.split)

section \<open>Free lists and ownership\<close>

text \<open>The nodes of a free list, in order.\<close>

fun chain :: "store \<Rightarrow> u64 option \<Rightarrow> u64 list \<Rightarrow> bool" where
  "chain m None ns \<longleftrightarrow> ns = []"
| "chain m (Some p) [] \<longleftrightarrow> False"
| "chain m (Some p) (n # ns) \<longleftrightarrow> n = p \<and> p \<noteq> 0 \<and> chain m (node_next m p) ns"

text \<open>The bytes of a block, and how many blocks of a list a byte belongs to.\<close>

definition bytes :: "u64 \<Rightarrow> nat \<Rightarrow> nat set" where
  "bytes p n = {unat p ..< unat p + n}"

fun cover :: "(u64 \<times> nat) list \<Rightarrow> nat \<Rightarrow> nat" where
  "cover [] b = 0"
| "cover ((p, n) # bs) b = (if b \<in> bytes p n then 1 else 0) + cover bs b"

definition live_blocks :: "(u64 \<times> Layout) list \<Rightarrow> (u64 \<times> nat) list" where
  "live_blocks live = map (\<lambda>(p, l). (p, served_size l)) live"

definition free_blocks :: "u64 list list \<Rightarrow> (u64 \<times> nat) list" where
  "free_blocks frees = concat (map (\<lambda>i. map (\<lambda>p. (p, block_size i)) (frees ! i)) [0..<9])"

text \<open>
  What the documentation of the fallback allocator promises, for the set \<open>owned\<close> of
  bytes it may use: an allocation carves an aligned block of the requested size out of these
  bytes, a deallocation adds at most the returned block to them, and neither writes outside.
\<close>

definition same_outside :: "nat set \<Rightarrow> store \<Rightarrow> store \<Rightarrow> bool" where
  "same_outside S m m' \<longleftrightarrow> (\<forall>a. bytes a 8 \<inter> S = {} \<longrightarrow> m' a = m a)"

definition fallback_ok :: "'h first_fit \<Rightarrow> 'h deallocate \<Rightarrow> ('h \<Rightarrow> nat set) \<Rightarrow> bool" where
  "fallback_ok first_fit deallocate owned \<longleftrightarrow>
     (\<forall>l m h p m' h'. first_fit l m h = (Some p, m', h') \<longrightarrow>
        p \<noteq> 0 \<and> unat p mod unat (layout_align l) = 0 \<and> unat p + unat (layout_size l) \<le> 2 ^ 64 \<and>
        bytes p (unat (layout_size l)) \<subseteq> owned h \<and> owned h' \<subseteq> owned h - bytes p (unat (layout_size l)) \<and>
        same_outside (owned h) m m') \<and>
     (\<forall>l m h m' h'. first_fit l m h = (None, m', h') \<longrightarrow> owned h' \<subseteq> owned h \<and> same_outside (owned h) m m') \<and>
     (\<forall>p l m h m' h'. deallocate p l m h = (m', h') \<longrightarrow>
        owned h' \<subseteq> owned h \<union> bytes p (unat (layout_size l)) \<and>
        same_outside (owned h \<union> bytes p (unat (layout_size l))) m m')"

text \<open>
  The invariant, for the list \<open>live\<close> of blocks handed out and not returned: every byte has at
  most one owner, a live block, a free list or the fallback allocator; the free lists are chains
  through memory of blocks of their class; every block is aligned to its class.
\<close>

definition fsb_inv :: "('h \<Rightarrow> nat set) \<Rightarrow> store \<Rightarrow> 'h FixedSizeBlockAllocator \<Rightarrow> u64 list list \<Rightarrow> (u64 \<times> Layout) list \<Rightarrow> bool" where
  "fsb_inv owned m al frees live \<longleftrightarrow>
     length (list_heads al) = 9 \<and> length frees = 9 \<and>
     (\<forall>i<9. chain m (list_heads al ! i) (frees ! i)) \<and>
     (\<forall>i<9. \<forall>p\<in>set (frees ! i). unat p mod block_size i = 0 \<and> unat p + block_size i \<le> 2 ^ 64) \<and>
     (\<forall>(p, l)\<in>set live. p \<noteq> 0 \<and> unat p mod served_align l = 0 \<and> unat p + served_size l \<le> 2 ^ 64) \<and>
     (\<forall>b. cover (free_blocks frees) b + cover (live_blocks live) b +
          (if b \<in> owned (fallback_allocator al) then 1 else 0) \<le> 1)"

lemma cover_append [simp]: "cover (xs @ ys) b = cover xs b + cover ys b"
  by (induction xs) auto

lemma cover_zero: "cover xs b = 0 \<longleftrightarrow> (\<forall>(p, n)\<in>set xs. b \<notin> bytes p n)"
  by (induction xs) auto

lemma cover_in: "(p, n) \<in> set xs \<Longrightarrow> b \<in> bytes p n \<Longrightarrow> 1 \<le> cover xs b"
  by (induction xs) auto

lemma cover_two:
  "i < length xs \<Longrightarrow> j < length xs \<Longrightarrow> i \<noteq> j \<Longrightarrow> b \<in> bytes (fst (xs ! i)) (snd (xs ! i)) \<Longrightarrow>
     b \<in> bytes (fst (xs ! j)) (snd (xs ! j)) \<Longrightarrow> 2 \<le> cover xs b"
proof (induction xs arbitrary: i j)
  case (Cons x xs)
  obtain p n where x: "x = (p, n)" by fastforce
  have in1: "1 \<le> cover xs b" if "k < length xs" "b \<in> bytes (fst (xs ! k)) (snd (xs ! k))" for k
    using cover_in [of "fst (xs ! k)" "snd (xs ! k)" xs b] that by simp
  show ?case
  proof (cases i)
    case 0
    then obtain j' where "j = Suc j'" using Cons.prems(3) by (cases j) auto
    then show ?thesis using Cons.prems 0 in1 [of j'] x by auto
  next
    case i: (Suc i')
    show ?thesis
    proof (cases j)
      case 0
      then show ?thesis using Cons.prems i in1 [of i'] x by auto
    next
      case (Suc j')
      then show ?thesis using Cons.prems i Cons.IH [of i' j'] x by auto
    qed
  qed
qed simp

lemma cover_free_blocks:
  "cover (free_blocks frees) b = (\<Sum>i<9. cover (map (\<lambda>p. (p, block_size i)) (frees ! i)) b)"
proof -
  have "cover (concat (map f [0..<n])) b = (\<Sum>i<n. cover (f i) b)" for f n
    by (induction n) simp_all
  then show ?thesis by (simp add: free_blocks_def)
qed

lemma cover_free_update:
  assumes "i < 9" "length frees = 9"
  shows "cover (free_blocks (frees[i := p # ps])) b =
    (if b \<in> bytes p (block_size i) then 1 else 0) + cover (free_blocks (frees[i := ps])) b"
proof -
  let ?c = "\<lambda>fr j. cover (map (\<lambda>p. (p, block_size j)) (fr ! j)) b"
  have split: "(\<Sum>j<9. ?c fr j) = ?c fr i + (\<Sum>j\<in>{..<9} - {i}. ?c fr j)" for fr
    using assms(1) by (intro sum.remove) auto
  have "(\<Sum>j\<in>{..<9} - {i}. ?c (frees[i := p # ps]) j) = (\<Sum>j\<in>{..<9} - {i}. ?c (frees[i := ps]) j)"
    by (intro sum.cong) auto
  then show ?thesis using assms by (simp add: cover_free_blocks split)
qed

lemma chain_cong: "\<forall>p\<in>set ns. m' p = m p \<Longrightarrow> chain m' h ns = chain m h ns"
proof (induction ns arbitrary: h)
  case Nil
  show ?case by (cases h) simp_all
next
  case (Cons n ns)
  then show ?case by (cases h) (auto simp: node_next_def)
qed

lemma block_size_ge_8: "8 \<le> block_size i"
  by (simp add: block_size_def power_add)

text \<open>Quadwords of distinct owners are distinct.\<close>

lemma bytes_8_subset: "8 \<le> n \<Longrightarrow> bytes p 8 \<subseteq> bytes p n"
  by (auto simp: bytes_def)

lemma free_node_cover:
  "i < 9 \<Longrightarrow> p \<in> set (frees ! i) \<Longrightarrow> b \<in> bytes p (block_size i) \<Longrightarrow> 1 \<le> cover (free_blocks frees) b"
  by (rule cover_in [of p "block_size i"]) (auto simp: free_blocks_def)

text \<open>A store that agrees on every block still in use.\<close>

definition keeps :: "(u64 \<times> Layout) list \<Rightarrow> store \<Rightarrow> store \<Rightarrow> bool" where
  "keeps live m m' \<longleftrightarrow>
     (\<forall>(q, l)\<in>set live. \<forall>a. bytes a 8 \<subseteq> bytes q (served_size l) \<longrightarrow> m' a = m a)"

lemma self_in_bytes: "0 < n \<Longrightarrow> unat p \<in> bytes p n"
  by (simp add: bytes_def)

lemma live_cover:
  "(q, l) \<in> set live \<Longrightarrow> b \<in> bytes q (served_size l) \<Longrightarrow> 1 \<le> cover (live_blocks live) b"
  by (rule cover_in [of q "served_size l"]) (auto simp: live_blocks_def)

lemma inv_owner: "fsb_inv owned m al frees live \<Longrightarrow>
    cover (free_blocks frees) b + cover (live_blocks live) b +
      (if b \<in> owned (fallback_allocator al) then 1 else 0) \<le> 1"
  by (simp add: fsb_inv_def)

lemma inv_parts:
  assumes "fsb_inv owned m al frees live"
  shows "length (list_heads al) = 9" "length frees = 9"
    and "i < 9 \<Longrightarrow> chain m (list_heads al ! i) (frees ! i)"
    and "i < 9 \<Longrightarrow> p \<in> set (frees ! i) \<Longrightarrow> unat p mod block_size i = 0 \<and> unat p + block_size i \<le> 2 ^ 64"
    and "(q, l) \<in> set live \<Longrightarrow> q \<noteq> 0 \<and> unat q mod served_align l = 0 \<and> unat q + served_size l \<le> 2 ^ 64"
  using assms by (auto simp: fsb_inv_def)

lemma fsb_invI:
  assumes "length (list_heads al) = 9" "length frees = 9"
    and "\<And>i. i < 9 \<Longrightarrow> chain m (list_heads al ! i) (frees ! i)"
    and "\<And>i p. i < 9 \<Longrightarrow> p \<in> set (frees ! i) \<Longrightarrow> unat p mod block_size i = 0 \<and> unat p + block_size i \<le> 2 ^ 64"
    and "\<And>q l. (q, l) \<in> set live \<Longrightarrow> q \<noteq> 0 \<and> unat q mod served_align l = 0 \<and> unat q + served_size l \<le> 2 ^ 64"
    and "\<And>b. cover (free_blocks frees) b + cover (live_blocks live) b +
          (if b \<in> owned (fallback_allocator al) then 1 else 0) \<le> 1"
  shows "fsb_inv owned m al frees live"
  unfolding fsb_inv_def using assms by (intro conjI ballI allI impI) blast+

lemma fsb_pop:
  assumes inv: "fsb_inv owned m al frees live" and l: "list_index l = Some i"
    and hd: "list_heads al ! i = Some p"
  defines "ps \<equiv> tl (frees ! i)"
  defines "al' \<equiv> al\<lparr>list_heads := (list_heads al)[i := node_next m p]\<rparr>"
  shows "fsb_inv owned (m(p := 0)) al' (frees[i := ps]) ((p, l) # live)" "keeps live m (m(p := 0))"
proof -
  have i: "i < 9" using list_index_Some(1) [OF l] .
  have len: "length frees = 9" "length (list_heads al) = 9" using inv by (simp_all add: fsb_inv_def)
  have "chain m (Some p) (frees ! i)" using inv i hd by (metis fsb_inv_def)
  then have fi: "frees ! i = p # ps" and p0: "p \<noteq> 0" and ch: "chain m (node_next m p) ps"
    by (cases "frees ! i"; simp add: ps_def)+
  have frees: "frees[i := p # ps] = frees" using fi by (metis list_update_id)
  have cov: "cover (free_blocks frees) b =
      (if b \<in> bytes p (block_size i) then 1 else 0) + cover (free_blocks (frees[i := ps])) b" for b
    using cover_free_update [OF i len(1), of p ps b] by (simp add: frees)
  have blk: "0 < block_size i" by (simp add: block_size_def)
  have "cover (free_blocks (frees[i := ps])) (unat p) = 0" "cover (live_blocks live) (unat p) = 0"
    using inv_owner [OF inv, of "unat p"] cov [of "unat p"] self_in_bytes [OF blk, of p] by auto
  then have fresh: "q \<noteq> p" if "j < 9" "q \<in> set (frees[i := ps] ! j)" for j q
    using free_node_cover [OF that, of "unat p"] self_in_bytes [of "block_size j" p]
    by (auto simp: block_size_def)
  have chains: "chain (m(p := 0)) ((list_heads al)[i := node_next m p] ! j) (frees[i := ps] ! j)" if j: "j < 9" for j
  proof -
    have "chain m ((list_heads al)[i := node_next m p] ! j) (frees[i := ps] ! j)"
      using inv ch i j len by (cases "j = i") (simp_all add: fsb_inv_def)
    then show ?thesis using fresh [OF j] by (subst chain_cong [of _ _ m]) auto
  qed
  show "fsb_inv owned (m(p := 0)) al' (frees[i := ps]) ((p, l) # live)"
  proof (rule fsb_invI)
    fix j q assume "j < 9" "q \<in> set (frees[i := ps] ! j)"
    then have "q \<in> set (frees ! j)" using fi len i by (cases "j = i") simp_all
    then show "unat q mod block_size j = 0 \<and> unat q + block_size j \<le> 2 ^ 64"
      using inv_parts(4) [OF inv \<open>j < 9\<close>] by simp
  next
    fix q l' assume "(q, l') \<in> set ((p, l) # live)"
    then show "q \<noteq> 0 \<and> unat q mod served_align l' = 0 \<and> unat q + served_size l' \<le> 2 ^ 64"
      using inv_parts(5) [OF inv, of q l'] inv_parts(4) [OF inv i, of p] fi p0 l
      by (auto simp: served_size_def served_align_def)
  next
    fix b
    show "cover (free_blocks (frees[i := ps])) b + cover (live_blocks ((p, l) # live)) b +
        (if b \<in> owned (fallback_allocator al') then 1 else 0) \<le> 1"
      using inv_owner [OF inv, of b] cov [of b] l by (simp add: live_blocks_def served_size_def al'_def)
  qed (use chains len in \<open>simp_all add: al'_def\<close>)
  show "keeps live m (m(p := 0))"
    unfolding keeps_def
  proof (clarify)
    fix q l' a assume q: "(q, l') \<in> set live" and a: "bytes a 8 \<subseteq> bytes q (served_size l')"
    have "unat a \<in> bytes q (served_size l')" using a self_in_bytes [of 8 a] by auto
    then have "a \<noteq> p"
      using live_cover [OF q, of "unat a"] \<open>cover (live_blocks live) (unat p) = 0\<close> by auto
    then show "(m(p := 0)) a = m a" by simp
  qed
qed

lemma node_next_repr:
  assumes "chain m h ns" shows "node_next (m'(p := node_repr h)) p = h"
proof (cases h)
  case (Some q)
  then have "q \<noteq> 0" using assms by (cases ns) simp_all
  then show ?thesis using Some by (simp add: node_next_def)
qed (simp add: node_next_def)

lemma fsb_push:
  assumes inv: "fsb_inv owned m al frees ((p, l) # live)" and l: "list_index l = Some i"
  defines "m' \<equiv> m(p := node_repr (list_heads al ! i))"
  defines "al' \<equiv> al\<lparr>list_heads := (list_heads al)[i := Some p]\<rparr>"
  shows "fsb_inv owned m' al' (frees[i := p # frees ! i]) live" "keeps live m m'"
proof -
  have i: "i < 9" using list_index_Some(1) [OF l] .
  note len = inv_parts(1,2) [OF inv]
  have p: "p \<noteq> 0" "unat p mod block_size i = 0" "unat p + block_size i \<le> 2 ^ 64"
    using inv_parts(5) [OF inv, of p l] l by (simp_all add: served_size_def served_align_def)
  have lv: "cover (live_blocks ((p, l) # live)) b =
      (if b \<in> bytes p (block_size i) then 1 else 0) + cover (live_blocks live) b" for b
    using l by (simp add: live_blocks_def served_size_def)
  have blk: "0 < block_size i" by (simp add: block_size_def)
  have zero: "cover (free_blocks frees) (unat p) = 0" "cover (live_blocks live) (unat p) = 0"
    using inv_owner [OF inv, of "unat p"] lv [of "unat p"] self_in_bytes [OF blk, of p] by auto
  have fresh: "q \<noteq> p" if "j < 9" "q \<in> set (frees ! j)" for j q
    using free_node_cover [OF that, of "unat p"] zero(1) self_in_bytes [of "block_size j" p]
    by (auto simp: block_size_def)
  have old: "chain m' (list_heads al ! j) (frees ! j)" if j: "j < 9" for j
    using inv_parts(3) [OF inv j] fresh [OF j] by (subst chain_cong [of _ _ m]) (auto simp: m'_def)
  have next_p: "node_next m' p = list_heads al ! i"
    unfolding m'_def by (rule node_next_repr [OF inv_parts(3) [OF inv i]])
  show "fsb_inv owned m' al' (frees[i := p # frees ! i]) live"
  proof (rule fsb_invI)
    fix j :: nat assume j: "j < 9"
    show "chain m' (list_heads al' ! j) (frees[i := p # frees ! i] ! j)"
      using old [OF j] p(1) next_p len j i by (cases "j = i") (simp_all add: al'_def)
  next
    fix j q assume j: "j < 9" "q \<in> set (frees[i := p # frees ! i] ! j)"
    then have "q \<in> set (frees ! j) \<or> q = p \<and> j = i" using len i by (cases "j = i") auto
    then show "unat q mod block_size j = 0 \<and> unat q + block_size j \<le> 2 ^ 64"
      using inv_parts(4) [OF inv j(1), of q] p by auto
  next
    fix q l' assume "(q, l') \<in> set live"
    then show "q \<noteq> 0 \<and> unat q mod served_align l' = 0 \<and> unat q + served_size l' \<le> 2 ^ 64"
      using inv_parts(5) [OF inv, of q l'] by simp
  next
    fix b
    show "cover (free_blocks (frees[i := p # frees ! i])) b + cover (live_blocks live) b +
        (if b \<in> owned (fallback_allocator al') then 1 else 0) \<le> 1"
      using inv_owner [OF inv, of b] lv [of b] cover_free_update [OF i len(2), of p "frees ! i" b]
      by (simp add: al'_def)
  qed (use len in \<open>simp_all add: al'_def\<close>)
  show "keeps live m m'"
    unfolding keeps_def
  proof clarify
    fix q l' a assume q: "(q, l') \<in> set live" and a: "bytes a 8 \<subseteq> bytes q (served_size l')"
    have "unat a \<in> bytes q (served_size l')" using a self_in_bytes [of 8 a] by auto
    then have "a \<noteq> p" using live_cover [OF q, of "unat a"] zero(2) by auto
    then show "m' a = m a" by (simp add: m'_def)
  qed
qed

text \<open>A change of memory inside bytes that no list and no live block covers.\<close>

lemma fsb_frame:
  assumes inv: "fsb_inv owned m al frees live0" and same: "same_outside S m m'"
  shows "(\<And>b. b \<in> S \<Longrightarrow> cover (free_blocks frees) b = 0) \<Longrightarrow> i < 9 \<Longrightarrow> chain m' (list_heads al ! i) (frees ! i)"
    and "(\<And>b. b \<in> S \<Longrightarrow> cover (live_blocks live) b = 0) \<Longrightarrow> keeps live m m'"
proof -
  assume z: "\<And>b. b \<in> S \<Longrightarrow> cover (free_blocks frees) b = 0" and i: "i < 9"
  have "m' p = m p" if p: "p \<in> set (frees ! i)" for p
  proof -
    have "bytes p 8 \<inter> S = {}"
      using z free_node_cover [OF i p] bytes_8_subset [OF block_size_ge_8 [of i], of p] by fastforce
    then show ?thesis using same by (simp add: same_outside_def)
  qed
  then show "chain m' (list_heads al ! i) (frees ! i)"
    using inv_parts(3) [OF inv i] by (subst chain_cong [of _ _ m]) auto
next
  assume z: "\<And>b. b \<in> S \<Longrightarrow> cover (live_blocks live) b = 0"
  show "keeps live m m'"
    unfolding keeps_def
  proof clarify
    fix q l a assume q: "(q, l) \<in> set live" and a: "bytes a 8 \<subseteq> bytes q (served_size l)"
    then have "bytes a 8 \<inter> S = {}" using z live_cover [OF q] by fastforce
    then show "m' a = m a" using same by (simp add: same_outside_def)
  qed
qed

lemma fsb_fallback_Some:
  assumes fb: "fallback_ok first_fit deallocate owned"
    and inv: "fsb_inv owned m al frees live"
    and run: "first_fit lay m (fallback_allocator al) = (Some p, m', h')"
    and lay: "served_size l = unat (layout_size lay)" "served_align l = unat (layout_align lay)"
  shows "fsb_inv owned m' (al\<lparr>fallback_allocator := h'\<rparr>) frees ((p, l) # live)" "keeps live m m'" "p \<noteq> 0"
proof -
  let ?h = "fallback_allocator al"
  have p: "p \<noteq> 0" "unat p mod served_align l = 0" "unat p + served_size l \<le> 2 ^ 64"
    and own: "bytes p (served_size l) \<subseteq> owned ?h" "owned h' \<subseteq> owned ?h - bytes p (served_size l)"
    and same: "same_outside (owned ?h) m m'"
    using fb [unfolded fallback_ok_def] run lay by simp_all
  have z: "cover (free_blocks frees) b = 0" "cover (live_blocks live) b = 0" if "b \<in> owned ?h" for b
    using inv_owner [OF inv, of b] that by simp_all
  show "p \<noteq> 0" "keeps live m m'" using p(1) fsb_frame(2) [OF inv same z(2)] by blast+
  show "fsb_inv owned m' (al\<lparr>fallback_allocator := h'\<rparr>) frees ((p, l) # live)"
  proof (rule fsb_invI)
    fix b
    show "cover (free_blocks frees) b + cover (live_blocks ((p, l) # live)) b +
        (if b \<in> owned (fallback_allocator (al\<lparr>fallback_allocator := h'\<rparr>)) then 1 else 0) \<le> 1"
      using inv_owner [OF inv, of b] own by (auto simp: live_blocks_def split: if_splits)
  next
    fix q l' assume "(q, l') \<in> set ((p, l) # live)"
    then show "q \<noteq> 0 \<and> unat q mod served_align l' = 0 \<and> unat q + served_size l' \<le> 2 ^ 64"
      using inv_parts(5) [OF inv, of q l'] p by auto
  qed (use inv_parts(1,2,4) [OF inv] fsb_frame(1) [OF inv same z(1)] in simp_all)
qed

lemma fsb_fallback_None:
  assumes fb: "fallback_ok first_fit deallocate owned"
    and inv: "fsb_inv owned m al frees live"
    and run: "first_fit lay m (fallback_allocator al) = (None, m', h')"
  shows "fsb_inv owned m' (al\<lparr>fallback_allocator := h'\<rparr>) frees live" "keeps live m m'"
proof -
  let ?h = "fallback_allocator al"
  have own: "owned h' \<subseteq> owned ?h" and same: "same_outside (owned ?h) m m'"
    using fb [unfolded fallback_ok_def] run by simp_all
  have z: "cover (free_blocks frees) b = 0" "cover (live_blocks live) b = 0" if "b \<in> owned ?h" for b
    using inv_owner [OF inv, of b] that by simp_all
  show "keeps live m m'" using fsb_frame(2) [OF inv same z(2)] .
  show "fsb_inv owned m' (al\<lparr>fallback_allocator := h'\<rparr>) frees live"
  proof (rule fsb_invI)
    fix b
    show "cover (free_blocks frees) b + cover (live_blocks live) b +
        (if b \<in> owned (fallback_allocator (al\<lparr>fallback_allocator := h'\<rparr>)) then 1 else 0) \<le> 1"
      using inv_owner [OF inv, of b] own by (auto split: if_splits)
  qed (use inv_parts [OF inv] fsb_frame(1) [OF inv same z(1)] in simp_all)
qed

lemma fsb_fallback_dealloc:
  assumes fb: "fallback_ok first_fit deallocate owned"
    and inv: "fsb_inv owned m al frees ((p, l) # live)" and l: "list_index l = None"
    and run: "deallocate p l m (fallback_allocator al) = (m', h')"
  shows "fsb_inv owned m' (al\<lparr>fallback_allocator := h'\<rparr>) frees live" "keeps live m m'"
proof -
  let ?S = "owned (fallback_allocator al) \<union> bytes p (served_size l)"
  have own: "owned h' \<subseteq> ?S" and same: "same_outside ?S m m'"
    using fb [unfolded fallback_ok_def] run l by (simp_all add: served_size_def)
  have z: "cover (free_blocks frees) b = 0" "cover (live_blocks live) b = 0" if "b \<in> ?S" for b
    using inv_owner [OF inv, of b] that by (auto simp: live_blocks_def split: if_splits)
  show "keeps live m m'" using fsb_frame(2) [OF inv same z(2)] .
  show "fsb_inv owned m' (al\<lparr>fallback_allocator := h'\<rparr>) frees live"
  proof (rule fsb_invI)
    fix b
    show "cover (free_blocks frees) b + cover (live_blocks live) b +
        (if b \<in> owned (fallback_allocator (al\<lparr>fallback_allocator := h'\<rparr>)) then 1 else 0) \<le> 1"
      using inv_owner [OF inv, of b] own by (auto simp: live_blocks_def split: if_splits)
  next
    fix q l' assume "(q, l') \<in> set live"
    then show "q \<noteq> 0 \<and> unat q mod served_align l' = 0 \<and> unat q + served_size l' \<le> 2 ^ 64"
      using inv_parts(5) [OF inv, of q l'] by simp
  qed (use inv_parts(1,2,4) [OF inv] fsb_frame(1) [OF inv same z(1)] in simp_all)
qed

section \<open>Allocation and deallocation\<close>

definition fsb_ok :: "('h \<Rightarrow> nat set) \<Rightarrow> store \<Rightarrow> 'h FixedSizeBlockAllocator \<Rightarrow> (u64 \<times> Layout) list \<Rightarrow> bool" where
  "fsb_ok owned m al live \<longleftrightarrow> (\<exists>frees. fsb_inv owned m al frees live)"

lemma fallback_alloc_ok:
  assumes fb: "fallback_ok first_fit deallocate owned" and ok: "fsb_ok owned m al live"
    and lay: "served_size l = unat (layout_size lay)" "served_align l = unat (layout_align lay)"
    and run: "fallback_alloc first_fit lay m al = (p, m', al')"
  shows "keeps live m m' \<and> fsb_ok owned m' al' (if p = 0 then live else (p, l) # live)"
proof -
  obtain frees where inv: "fsb_inv owned m al frees live" using ok by (auto simp: fsb_ok_def)
  obtain r m1 h1 where ff: "first_fit lay m (fallback_allocator al) = (r, m1, h1)" by (metis prod_cases3)
  show ?thesis
  proof (cases r)
    case None
    then show ?thesis
      using fsb_fallback_None [OF fb inv, of lay m1 h1] ff run by (auto simp: fallback_alloc_def fsb_ok_def)
  next
    case (Some q)
    then show ?thesis
      using fsb_fallback_Some [OF fb inv _ lay, of q m1 h1] ff run by (auto simp: fallback_alloc_def fsb_ok_def)
  qed
qed

lemma alloc_ok:
  assumes fb: "fallback_ok first_fit deallocate owned" and ok: "fsb_ok owned m al live"
  obtains p m' al' where "GlobalAlloc_alloc first_fit l m al = Done (p, m', al')"
    "keeps live m m'" "fsb_ok owned m' al' (if p = 0 then live else (p, l) # live)"
proof (cases "list_index l")
  case None
  obtain p m' al' where run: "fallback_alloc first_fit l m al = (p, m', al')" by (metis prod_cases3)
  from fallback_alloc_ok [OF fb ok _ _ run, of l] None that run show ?thesis
    by (simp add: GlobalAlloc_alloc_def served_size_def served_align_def)
next
  case (Some i)
  have i: "i < 9" using list_index_Some(1) [OF Some] .
  show ?thesis
  proof (cases "list_heads al ! i")
    case None
    let ?lay = "\<lparr>layout_size = BLOCK_SIZES ! i, layout_align = BLOCK_SIZES ! i\<rparr>"
    obtain p m' al' where run: "fallback_alloc first_fit ?lay m al = (p, m', al')" by (metis prod_cases3)
    from fallback_alloc_ok [OF fb ok _ _ run, of l] None Some that run show ?thesis
      by (simp add: GlobalAlloc_alloc_def served_size_def served_align_def BLOCK_SIZES_nth [OF i]
          block_size_from_size_align [OF i])
  next
    case hd: (Some p)
    obtain frees where inv: "fsb_inv owned m al frees live" using ok by (auto simp: fsb_ok_def)
    note pop = fsb_pop [OF inv Some hd]
    have "p \<noteq> 0" using inv_parts(5) [OF pop(1), of p l] by simp
    then show ?thesis
      using pop that [of p] Some hd by (auto simp: GlobalAlloc_alloc_def fsb_ok_def)
  qed
qed

lemma dealloc_ok:
  assumes fb: "fallback_ok first_fit deallocate owned" and ok: "fsb_ok owned m al ((p, l) # live)"
  obtains m' al' where "GlobalAlloc_dealloc deallocate p l m al = Done (m', al')"
    "keeps live m m'" "fsb_ok owned m' al' live"
proof -
  obtain frees where inv: "fsb_inv owned m al frees ((p, l) # live)" using ok by (auto simp: fsb_ok_def)
  have p: "p \<noteq> 0" using inv_parts(5) [OF inv, of p l] by simp
  show ?thesis
  proof (cases "list_index l")
    case None
    obtain m' h' where run: "deallocate p l m (fallback_allocator al) = (m', h')" by fastforce
    from fsb_fallback_dealloc [OF fb inv None run] that None run p show ?thesis
      by (auto simp: GlobalAlloc_dealloc_def fsb_ok_def)
  next
    case (Some i)
    have "8 \<le> BLOCK_SIZES ! i"
      using BLOCK_SIZES_nth [OF list_index_Some(1) [OF Some]] block_size_ge_8 [of i] by (simp add: word_le_nat_alt)
    then show ?thesis
      using fsb_push [OF inv Some] that Some
      by (auto simp: GlobalAlloc_dealloc_def fsb_ok_def SIZE_OF_ListNode_def ALIGN_OF_ListNode_def)
  qed
qed

lemma write_ok:
  assumes ok: "fsb_ok owned m al live" and q: "(q, l) \<in> set live" and a: "bytes a 8 \<subseteq> bytes q (served_size l)"
  shows "fsb_ok owned (m(a := v)) al live"
proof -
  obtain frees where inv: "fsb_inv owned m al frees live" using ok by (auto simp: fsb_ok_def)
  have same: "same_outside (bytes a 8) m (m(a := v))"
    using self_in_bytes [of 8 a] by (auto simp: same_outside_def)
  have z: "cover (free_blocks frees) b = 0" if "b \<in> bytes a 8" for b
    using inv_owner [OF inv, of b] live_cover [OF q, of b] a that by (auto split: if_splits)
  have "fsb_inv owned (m(a := v)) al frees live"
    by (rule fsb_invI) (use inv_parts [OF inv] inv_owner [OF inv] fsb_frame(1) [OF inv same z] in simp_all)
  then show ?thesis by (auto simp: fsb_ok_def)
qed

section \<open>Histories\<close>

text \<open>
  What can happen to the heap: a client allocates a valid layout, returns a block it holds with the
  layout it was allocated with, or writes a quadword of a block it holds.
\<close>

inductive heap_step ::
    "'h first_fit \<Rightarrow> 'h deallocate \<Rightarrow>
      store \<times> 'h FixedSizeBlockAllocator \<times> (u64 \<times> Layout) list \<Rightarrow>
      store \<times> 'h FixedSizeBlockAllocator \<times> (u64 \<times> Layout) list \<Rightarrow> bool"
  for ff de where
  heap_alloc: "layout_ok l \<Longrightarrow> GlobalAlloc_alloc ff l m al = Done (p, m', al') \<Longrightarrow>
    heap_step ff de (m, al, live) (m', al', if p = 0 then live else (p, l) # live)"
| heap_dealloc: "live = xs @ (p, l) # ys \<Longrightarrow> GlobalAlloc_dealloc de p l m al = Done (m', al') \<Longrightarrow>
    heap_step ff de (m, al, live) (m', al', xs @ ys)"
| heap_write: "(q, l) \<in> set live \<Longrightarrow> bytes a 8 \<subseteq> bytes q (served_size l) \<Longrightarrow>
    heap_step ff de (m, al, live) (m(a := v), al, live)"

inductive heap_steps ::
    "'h first_fit \<Rightarrow> 'h deallocate \<Rightarrow>
      store \<times> 'h FixedSizeBlockAllocator \<times> (u64 \<times> Layout) list \<Rightarrow>
      store \<times> 'h FixedSizeBlockAllocator \<times> (u64 \<times> Layout) list \<Rightarrow> bool"
  for ff de where
  heap_refl: "heap_steps ff de s s"
| heap_trans: "heap_steps ff de s s' \<Longrightarrow> heap_step ff de s' s'' \<Longrightarrow> heap_steps ff de s s''"

lemma fsb_inv_perm:
  assumes "mset live = mset live'" "fsb_inv owned m al frees live"
  shows "fsb_inv owned m al frees live'"
proof -
  have "mset (live_blocks live) = mset (live_blocks live')" using assms(1) by (simp add: live_blocks_def)
  moreover have "cover xs b = (\<Sum>x\<in>#mset xs. if b \<in> bytes (fst x) (snd x) then 1 else 0)" for xs b
    by (induction xs) auto
  ultimately have "cover (live_blocks live) = cover (live_blocks live')" by auto
  moreover have "set live = set live'" using assms(1) by (metis mset_eq_setD)
  ultimately show ?thesis using assms(2) by (simp add: fsb_inv_def)
qed

lemma fsb_ok_perm: "mset live = mset live' \<Longrightarrow> fsb_ok owned m al live \<Longrightarrow> fsb_ok owned m al live'"
  unfolding fsb_ok_def using fsb_inv_perm by blast

lemma heap_step_ok:
  assumes "heap_step ff de s s'" "fallback_ok ff de owned" "fsb_ok owned (fst s) (fst (snd s)) (snd (snd s))"
  shows "fsb_ok owned (fst s') (fst (snd s')) (snd (snd s'))"
  using assms
proof cases
  case (heap_alloc l m al p m' al' live)
  then show ?thesis using alloc_ok [OF assms(2), of m al live l] assms(3) by fastforce
next
  case (heap_dealloc live xs p l ys m al m' al')
  then have "fsb_ok owned m al ((p, l) # xs @ ys)"
    using assms(3) fsb_ok_perm [of live "(p, l) # xs @ ys" owned m al] by simp
  from dealloc_ok [OF assms(2) this] heap_dealloc show ?thesis by fastforce
next
  case (heap_write q l live a m al v)
  then show ?thesis using write_ok assms(3) by auto
qed

lemma heap_steps_ok:
  "heap_steps ff de s s' \<Longrightarrow> fallback_ok ff de owned \<Longrightarrow> fsb_ok owned (fst s) (fst (snd s)) (snd (snd s)) \<Longrightarrow>
     fsb_ok owned (fst s') (fst (snd s')) (snd (snd s'))"
  by (induction rule: heap_steps.induct) (auto intro: heap_step_ok)

lemma live_disjoint:
  assumes "fsb_ok owned m al live" "i < length live" "j < length live" "i \<noteq> j"
    "live ! i = (p, l)" "live ! j = (q, k)"
  shows "bytes p (served_size l) \<inter> bytes q (served_size k) = {}"
proof (rule ccontr)
  assume "bytes p (served_size l) \<inter> bytes q (served_size k) \<noteq> {}"
  then obtain b where b: "b \<in> bytes p (served_size l)" "b \<in> bytes q (served_size k)" by blast
  have "2 \<le> cover (live_blocks live) b"
    by (rule cover_two [of i _ j]) (use assms b in \<open>simp_all add: live_blocks_def\<close>)
  moreover obtain frees where "fsb_inv owned m al frees live" using assms(1) by (auto simp: fsb_ok_def)
  ultimately show False using inv_owner [of owned m al frees live b] by simp
qed

section \<open>Properties\<close>

text \<open>
  C22. On a consistent heap \<open>alloc\<close> always returns: either null, or a block that is aligned as
  the layout asks, at least as large, and disjoint from every block in use. The contents of the
  blocks in use do not change and the heap stays consistent.
\<close>

theorem heap_alloc_safe:
  assumes fb: "fallback_ok first_fit deallocate owned" and ok: "fsb_ok owned m al live" and l: "layout_ok l"
  shows "\<exists>p m' al'. GlobalAlloc_alloc first_fit l m al = Done (p, m', al') \<and> keeps live m m' \<and>
    (if p = 0 then fsb_ok owned m' al' live
     else fsb_ok owned m' al' ((p, l) # live) \<and> unat p mod unat (layout_align l) = 0 \<and>
       (\<forall>(q, k)\<in>set live. bytes p (unat (layout_size l)) \<inter> bytes q (served_size k) = {}))"
proof -
  obtain p m' al' where run: "GlobalAlloc_alloc first_fit l m al = Done (p, m', al')" "keeps live m m'"
      "fsb_ok owned m' al' (if p = 0 then live else (p, l) # live)"
    by (rule alloc_ok [OF fb ok])
  have "unat p mod unat (layout_align l) = 0 \<and>
      (\<forall>(q, k)\<in>set live. bytes p (unat (layout_size l)) \<inter> bytes q (served_size k) = {})" if "p \<noteq> 0"
  proof -
    have ok': "fsb_ok owned m' al' ((p, l) # live)" using run(3) that by simp
    then obtain frees where inv: "fsb_inv owned m' al' frees ((p, l) # live)" by (auto simp: fsb_ok_def)
    have "unat p mod unat (layout_align l) = 0"
      using inv_parts(5) [OF inv, of p l] served_align_dvd [OF l] by (auto elim!: dvdE)
    moreover have "bytes p (unat (layout_size l)) \<inter> bytes q (served_size k) = {}" if q: "(q, k) \<in> set live" for q k
    proof -
      obtain j where "j < length live" "live ! j = (q, k)" using q by (auto simp: in_set_conv_nth)
      then have "bytes p (served_size l) \<inter> bytes q (served_size k) = {}"
        using live_disjoint [OF ok', of 0 "Suc j" p l q k] by simp
      then show ?thesis using served_size_le [of l] by (auto simp: bytes_def)
    qed
    ultimately show ?thesis by blast
  qed
  then show ?thesis using run by (intro exI [of _ p] exI [of _ m'] exI [of _ al']) (simp split: if_splits)
qed


text \<open>
  C23. Returning a block of a size class and then allocating a layout of the same class
  gives the same block back and leaves the allocator as it was before the two calls.
\<close>

theorem heap_dealloc_reuse:
  assumes fb: "fallback_ok first_fit deallocate owned" and ok: "fsb_ok owned m al ((p, l) # live)"
    and cl: "list_index l = Some i" "list_index l' = Some i"
  shows "\<exists>m' al'. GlobalAlloc_dealloc deallocate p l m al = Done (m', al') \<and> fsb_ok owned m' al' live \<and>
    GlobalAlloc_alloc first_fit l' m' al' = Done (p, m(p := 0), al)"
proof -
  obtain frees where inv: "fsb_inv owned m al frees ((p, l) # live)" using ok by (auto simp: fsb_ok_def)
  have i: "i < 9" using list_index_Some(1) [OF cl(1)] .
  let ?m = "m(p := node_repr (list_heads al ! i))" and ?al = "al\<lparr>list_heads := (list_heads al)[i := Some p]\<rparr>"
  obtain m' al' where de: "GlobalAlloc_dealloc deallocate p l m al = Done (m', al')" "fsb_ok owned m' al' live"
    by (rule dealloc_ok [OF fb ok])
  then have eq: "m' = ?m" "al' = ?al"
    using cl(1) by (auto simp: GlobalAlloc_dealloc_def Let_def split: if_splits)
  have "node_next ?m p = list_heads al ! i" by (rule node_next_repr [OF inv_parts(3) [OF inv i]])
  then have "GlobalAlloc_alloc first_fit l' ?m ?al = Done (p, m(p := 0), al)"
    using cl(2) i inv_parts(1) [OF inv] by (simp add: GlobalAlloc_alloc_def)
  then show ?thesis using de eq by blast
qed

section \<open>Examples\<close>

text \<open>
  A fallback allocator that satisfies the hypothesis: it hands out the bytes from
  \<open>a\<close> to \<open>e\<close> in order and never reuses any.
\<close>

definition round_up :: "nat \<Rightarrow> nat \<Rightarrow> nat" where
  "round_up a al = (a + (al - 1)) div al * al"

definition bump_first_fit :: "(nat \<times> nat) first_fit" where
  "bump_first_fit l m h =
     (let (a, e) = h; al = unat (layout_align l); n = unat (layout_size l);
          p = round_up a al
      in if 0 < p \<and> p < 2 ^ 64 \<and> p + n \<le> 2 ^ 64 \<and> p + n \<le> e then (Some (of_nat p), m, (p + n, e)) else (None, m, (a, e)))"

definition bump_deallocate :: "(nat \<times> nat) deallocate" where
  "bump_deallocate p l m h = (m, h)"

definition bump_owned :: "nat \<times> nat \<Rightarrow> nat set" where
  "bump_owned h = {fst h ..< snd h}"

lemma round_up_ge: "0 < round_up a al \<Longrightarrow> a \<le> round_up a al"
proof -
  assume "0 < round_up a al"
  then have "0 < al" by (auto simp: round_up_def)
  then have "(a + (al - 1)) mod al \<le> al - 1" by (simp add: less_Suc_eq_le [symmetric])
  moreover have "a + (al - 1) = round_up a al + (a + (al - 1)) mod al" by (simp add: round_up_def)
  ultimately show ?thesis by linarith
qed

lemma round_up_mod [simp]: "round_up a al mod al = 0"
  by (simp add: round_up_def)

lemma bump_first_fit_Some:
  assumes "bump_first_fit l m (a, e) = (Some p, m', h')"
  shows "unat p = round_up a (unat (layout_align l))" "0 < unat p" "a \<le> unat p" "m' = m"
    "unat p + unat (layout_size l) \<le> 2 ^ 64" "unat p + unat (layout_size l) \<le> e"
    "h' = (unat p + unat (layout_size l), e)"
proof -
  let ?p = "round_up a (unat (layout_align l))"
  have c: "0 < ?p" "?p < 2 ^ 64" "?p + unat (layout_size l) \<le> 2 ^ 64" "?p + unat (layout_size l) \<le> e"
    "p = of_nat ?p" "m' = m" "h' = (?p + unat (layout_size l), e)"
    using assms by (auto simp: bump_first_fit_def Let_def split: if_splits)
  moreover have "unat p = ?p" using c(2,5) by (simp add: unat_of_nat)
  ultimately show "unat p = ?p" "0 < unat p" "a \<le> unat p" "m' = m"
    "unat p + unat (layout_size l) \<le> 2 ^ 64" "unat p + unat (layout_size l) \<le> e"
    "h' = (unat p + unat (layout_size l), e)"
    using round_up_ge [OF c(1)] by simp_all
qed

lemma bump_fallback_ok: "fallback_ok bump_first_fit bump_deallocate bump_owned"
  unfolding fallback_ok_def
proof (intro conjI allI impI)
  fix l m and h :: "nat \<times> nat" and p m' h' assume run: "bump_first_fit l m h = (Some p, m', h')"
  obtain a e where h: "h = (a, e)" by fastforce
  note b = bump_first_fit_Some [OF run [unfolded h]]
  show "p \<noteq> 0" using b(2) by auto
  show "unat p mod unat (layout_align l) = 0" using b(1) by simp
  show "unat p + unat (layout_size l) \<le> 2 ^ 64" using b(5) .
  show "bytes p (unat (layout_size l)) \<subseteq> bump_owned h"
    "bump_owned h' \<subseteq> bump_owned h - bytes p (unat (layout_size l))"
    using b(3,6,7) by (auto simp: bump_owned_def h bytes_def)
  show "same_outside (bump_owned h) m m'" using b(4) by (simp add: same_outside_def)
qed (auto simp: bump_first_fit_def bump_deallocate_def bump_owned_def same_outside_def Let_def split: if_splits)

abbreviation example_heap :: "(nat \<times> nat) FixedSizeBlockAllocator" where
  "example_heap \<equiv> FixedSizeBlockAllocator_new (4096, 8192)"

lemma example_heap_ok: "fsb_ok bump_owned m example_heap []"
  unfolding fsb_ok_def
  by (rule exI [of _ "replicate 9 []"], rule fsb_invI)
    (simp_all add: FixedSizeBlockAllocator_new_def live_blocks_def cover_free_blocks)

abbreviation example_layout :: Layout where
  "example_layout \<equiv> \<lparr>layout_size = 24, layout_align = 8\<rparr>"

lemma example_layout_ok: "layout_ok example_layout"
  by (auto simp: layout_ok_def intro!: exI [of _ 3])

lemma example_list_index: "list_index example_layout = Some 2"
  by (simp add: list_index_def BLOCK_SIZES_def max_def)

lemma example_alloc:
  "GlobalAlloc_alloc bump_first_fit example_layout m example_heap =
     Done (4096, m, example_heap\<lparr>fallback_allocator := (4128, 8192)\<rparr>)"
  by (simp add: GlobalAlloc_alloc_def example_list_index FixedSizeBlockAllocator_new_def BLOCK_SIZES_def
      from_size_align_def is_power_of_two_def fallback_alloc_def bump_first_fit_def round_up_def)

theorem heap_alloc_safe_witness:
  "\<exists>p m' al'. GlobalAlloc_alloc bump_first_fit example_layout (\<lambda>_. 0) example_heap = Done (p, m', al') \<and> p = 4096 \<and>
     fsb_ok bump_owned m' al' [(4096, example_layout)]"
  using heap_alloc_safe [OF bump_fallback_ok example_heap_ok example_layout_ok, of "\<lambda>_. 0"]
  by (simp add: example_alloc)

lemma example_two_allocs:
  "heap_steps bump_first_fit bump_deallocate ((\<lambda>_. 0), example_heap, [])
     ((\<lambda>_. 0), example_heap\<lparr>fallback_allocator := (4160, 8192)\<rparr>, [(4128, example_layout), (4096, example_layout)])"
proof -
  have a1: "heap_step bump_first_fit bump_deallocate ((\<lambda>_. 0), example_heap, [])
      ((\<lambda>_. 0), example_heap\<lparr>fallback_allocator := (4128, 8192)\<rparr>, [(4096, example_layout)])"
    using heap_alloc [OF example_layout_ok example_alloc, where live = "[]" and de = bump_deallocate] by simp
  have "GlobalAlloc_alloc bump_first_fit example_layout m (example_heap\<lparr>fallback_allocator := (4128, 8192)\<rparr>) =
      Done (4128, m, example_heap\<lparr>fallback_allocator := (4160, 8192)\<rparr>)" for m
    by (simp add: GlobalAlloc_alloc_def example_list_index FixedSizeBlockAllocator_new_def BLOCK_SIZES_def
        from_size_align_def is_power_of_two_def fallback_alloc_def bump_first_fit_def round_up_def)
  from heap_alloc [OF example_layout_ok this, where live = "[(4096, example_layout)]" and de = bump_deallocate]
  have a2: "heap_step bump_first_fit bump_deallocate
      ((\<lambda>_. 0), example_heap\<lparr>fallback_allocator := (4128, 8192)\<rparr>, [(4096, example_layout)])
      ((\<lambda>_. 0), example_heap\<lparr>fallback_allocator := (4160, 8192)\<rparr>, [(4128, example_layout), (4096, example_layout)])"
    by simp
  show ?thesis by (rule heap_trans [OF heap_trans [OF heap_refl a1] a2])
qed


theorem heap_dealloc_reuse_witness:
  "\<exists>m' al'. GlobalAlloc_dealloc bump_deallocate 4096 example_layout (\<lambda>_. 0)
       (example_heap\<lparr>fallback_allocator := (4128, 8192)\<rparr>) = Done (m', al') \<and>
     GlobalAlloc_alloc bump_first_fit \<lparr>layout_size = 17, layout_align = 1\<rparr> m' al' =
       Done (4096, (\<lambda>_. 0)(4096 := 0), example_heap\<lparr>fallback_allocator := (4128, 8192)\<rparr>)"
proof -
  have "heap_steps bump_first_fit bump_deallocate ((\<lambda>_. 0), example_heap, [])
      ((\<lambda>_. 0), example_heap\<lparr>fallback_allocator := (4128, 8192)\<rparr>, [(4096, example_layout)])"
    using heap_trans [OF heap_refl heap_alloc [OF example_layout_ok example_alloc, where live = "[]"]] by simp
  from heap_steps_ok [OF this bump_fallback_ok] example_heap_ok
  have ok: "fsb_ok bump_owned (\<lambda>_. 0) (example_heap\<lparr>fallback_allocator := (4128, 8192)\<rparr>) [(4096, example_layout)]"
    by simp
  have "list_index \<lparr>layout_size = 17, layout_align = 1\<rparr> = Some 2"
    by (simp add: list_index_def BLOCK_SIZES_def max_def word_le_nat_alt)
  from heap_dealloc_reuse [OF bump_fallback_ok ok example_list_index this] show ?thesis by blast
qed

end
