(* ===== verification/Heap.thy ===== *)
theory Heap
  imports Map_Pages Fixed_Size_Block
begin

text \<open>
  The kernel heap region (\<^verbatim>\<open>src/allocator.rs\<close>): \<open>init_heap\<close> maps a fresh
  frame to every page of the region and hands the region to the allocator of
  \<open>Fixed_Size_Block\<close>. The loop runs with fuel and is \<open>Hang\<close> when it runs out; more
  iterations of fuel than the region has pages are enough.
\<close>

section \<open>The code\<close>

definition HEAP_START :: usize where "HEAP_START = 0x777777770000"
definition HEAP_SIZE :: usize where "HEAP_SIZE = 300 * 1024"

fun map_heap :: "nat \<Rightarrow> VirtAddr \<Rightarrow> VirtAddr \<Rightarrow> u64 \<Rightarrow> machine \<Rightarrow> FrameAllocator \<Rightarrow> (machine \<times> FrameAllocator) outcome" where
  "map_heap 0 heap heap_end page_table s fa = Hang"
| "map_heap (Suc fuel) heap heap_end page_table s fa =
     (if heap < heap_end then
        bindO (allocate_frame fa) (\<lambda>(frame, fa).
        bindO (expect_some ''Failed to allocate frame'' frame) (\<lambda>frame.
        bindO (map_address_with_offset page_table heap frame allocate_page_table VIRT_MAPPING_OFFSET s fa) (\<lambda>(r, s, fa).
        bindO (expect ''Failed to map new frame'' r) (\<lambda>_.
        bindO (expect [] (VirtAddr_offset heap 4096)) (\<lambda>heap.
        map_heap fuel heap heap_end page_table s fa)))))
      else Done (s, fa))"

definition init_heap ::
    "nat \<Rightarrow> (usize \<Rightarrow> usize \<Rightarrow> store \<Rightarrow> 'h \<Rightarrow> store \<times> 'h) \<Rightarrow> u64 \<Rightarrow> machine \<Rightarrow> FrameAllocator \<Rightarrow> 'h FixedSizeBlockAllocator
      \<Rightarrow> (unit result \<times> machine \<times> FrameAllocator \<times> 'h FixedSizeBlockAllocator) outcome" where
  "init_heap fuel heap_init page_table s fa al =
     (let heap = VirtAddr_new HEAP_START in
      bindO (expect ''Failed to offset virtual address'' (VirtAddr_offset heap HEAP_SIZE)) (\<lambda>heap_end.
      bindO (map_heap fuel heap heap_end page_table s fa) (\<lambda>(s, fa).
        let (m, al) = FixedSizeBlockAllocator_init heap_init HEAP_START HEAP_SIZE (mem s) al
        in Done (Inr (), s\<lparr>mem := m\<rparr>, fa, al))))"

section \<open>The loop\<close>

text \<open>The loop maps \<open>j\<close> pages from \<open>heap\<close> on to \<open>j\<close> different frames.\<close>

lemma map_heap_run:
  assumes "paging_ok VIRT_MAPPING_OFFSET X root s fa"
    and "page_aligned heap" "unat heap_end = unat heap + 4096 * j" "unat heap_end < 2 ^ 47"
    and "4 * j \<le> length (remaining fa)" "j < fuel"
    and "\<forall>v. unat heap \<le> unat v \<and> unat v < unat heap_end \<longrightarrow> translation VIRT_MAPPING_OFFSET root s v = None"
  shows "\<exists>s' fa' fs. map_heap fuel heap heap_end root s fa = Done (s', fa') \<and> length fs = j \<and> distinct fs \<and>
    (\<lambda>f. f + VIRT_MAPPING_OFFSET) ` set fs \<inter> X = {} \<and>
    paging_ok VIRT_MAPPING_OFFSET (X \<union> (\<lambda>f. f + VIRT_MAPPING_OFFSET) ` set fs) root s' fa' \<and>
    (\<forall>v. canonical v \<longrightarrow> translation VIRT_MAPPING_OFFSET root s' v =
       (if unat heap \<le> unat v \<and> unat v < unat heap_end then Some (fs ! ((unat v - unat heap) div 4096))
        else translation VIRT_MAPPING_OFFSET root s v))"
  using assms
proof (induction j arbitrary: X s fa heap fuel)
  case 0
  then obtain n where "fuel = Suc n" by (cases fuel) auto
  then show ?case using 0 by (intro exI [of _ s] exI [of _ fa] exI [of _ "[]"]) (auto simp: word_less_nat_alt)
next
  case (Suc j)
  let ?O = VIRT_MAPPING_OFFSET
  obtain n where n: "fuel = Suc n" "j < n" using Suc.prems(6) by (cases fuel) auto
  obtain f fs0 where rem: "remaining fa = f # fs0" using Suc.prems(5) by (cases "remaining fa") auto
  obtain fa1 where fa1: "allocate_frame fa = Done (Some f, fa1)" "remaining fa1 = fs0" "frame_ok f" "f + ?O \<notin> X"
      "paging_ok ?O (insert (f + ?O) X) root s fa1"
    using paging_ok_reserve [OF Suc.prems(1) rem] by blast
  have lt: "heap < heap_end" using Suc.prems(3) by (simp add: word_less_nat_alt)
  have can: "canonical heap" using Suc.prems(3,4) by (intro low_half_canonical) simp
  have al: "heap mod 4096 = 0" "f mod 4096 = 0"
    using Suc.prems(2) fa1(3) by (simp_all add: page_aligned_def frame_ok_def)
  have unm: "translation ?O root s heap = None" using Suc.prems(3,7) by simp
  obtain s1 fa2 where m: "map_address_impl root heap f allocate_page_table CheckFrameIsFree ?O s fa1 = Done (Inr (), s1, fa2)"
      "length (remaining fa1) \<le> length (remaining fa2) + 3"
    using frames.map_enough [OF fa1(5) [unfolded paging_ok_def], of heap f CheckFrameIsFree] al unm
      fa1(2) Suc.prems(5) rem by (auto simp: translation_def)
  note upd = map_address_update [OF fa1(5,3) can m(1)]
  have al_iff: "align_down v = heap \<longleftrightarrow> unat heap \<le> unat v \<and> unat v < unat heap + 4096" if "canonical v" for v
    using align_down_iff [OF that Suc.prems(2)] .
  have bound: "unat heap + unat (4096 :: u64) < 2 ^ 47" using Suc.prems(3,4) by simp
  note off = VirtAddr_offset_low [OF bound]
  have u: "unat (heap + 4096) = unat heap + 4096" using off(2) by simp
  have unm': "\<forall>v. unat (heap + 4096) \<le> unat v \<and> unat v < unat heap_end \<longrightarrow> translation ?O root s1 v = None"
  proof (intro allI impI)
    fix v :: u64 assume v: "unat (heap + 4096) \<le> unat v \<and> unat v < unat heap_end"
    then have "canonical v" using Suc.prems(4) by (intro low_half_canonical) simp
    then show "translation ?O root s1 v = None" using upd(2) [of v] al_iff [of v] v u Suc.prems(7) by simp
  qed
  have "page_aligned (heap + 4096)" using Suc.prems(2) u by (simp add: page_aligned_unat)
  moreover have "4 * j \<le> length (remaining fa2)" using m(2) fa1(2) rem Suc.prems(5) by simp
  ultimately obtain s' fa' fs where IH: "map_heap n (heap + 4096) heap_end root s1 fa2 = Done (s', fa')"
      "length fs = j" "distinct fs" "(\<lambda>f. f + ?O) ` set fs \<inter> insert (f + ?O) X = {}"
      "paging_ok ?O (insert (f + ?O) X \<union> (\<lambda>f. f + ?O) ` set fs) root s' fa'"
      "\<forall>v. canonical v \<longrightarrow> translation ?O root s' v =
         (if unat (heap + 4096) \<le> unat v \<and> unat v < unat heap_end then Some (fs ! ((unat v - unat (heap + 4096)) div 4096))
          else translation ?O root s1 v)"
    using Suc.IH [OF upd(1) _ _ Suc.prems(4) _ n(2) unm'] Suc.prems(3) u by auto
  have "map_heap fuel heap heap_end root s fa = Done (s', fa')"
    using n(1) lt fa1(1) m(1) off(1) IH(1) by (simp add: map_address_with_offset_def)
  moreover have "translation ?O root s' v =
      (if unat heap \<le> unat v \<and> unat v < unat heap_end then Some ((f # fs) ! ((unat v - unat heap) div 4096))
       else translation ?O root s v)" if v: "canonical v" for v
  proof -
    have split: "(unat v - unat heap) div 4096 = Suc ((unat v - unat (heap + 4096)) div 4096)"
      if "unat (heap + 4096) \<le> unat v"
    proof -
      have "unat v - unat heap = (unat v - unat (heap + 4096)) + 4096" using that u by simp
      then show ?thesis by simp
    qed
    show ?thesis
      using IH(6) [rule_format, OF v] upd(2) [OF v] al_iff [OF v] split u Suc.prems(3) by auto
  qed
  ultimately show ?case
    using IH(2-5) fa1(4)
    by (intro exI [of _ s'] exI [of _ fa'] exI [of _ "f # fs"]) auto
qed

section \<open>Properties\<close>

text \<open>
  C11. With 300 frames left and the heap region unmapped, \<open>init_heap\<close> returns \<open>Ok\<close>: every
  address of the region is then translated to one of 75 pairwise different fresh frames, page by
  page, none of which is a page table or will become one; every other translation is as before; and the
  allocator is initialised once, with exactly this region.
\<close>

theorem init_heap_maps_region:
  assumes ok: "paging_ok VIRT_MAPPING_OFFSET X root s fa"
    and free: "\<forall>v. unat HEAP_START \<le> unat v \<and> unat v < unat HEAP_START + unat HEAP_SIZE \<longrightarrow>
      translation VIRT_MAPPING_OFFSET root s v = None"
    and frames: "300 \<le> length (remaining fa)" and fuel: "75 < fuel"
  shows "\<exists>s1 fa' fs m h. init_heap fuel heap_init root s fa al = Done (Inr (), s1\<lparr>mem := m\<rparr>, fa', al\<lparr>fallback_allocator := h\<rparr>) \<and>
    heap_init HEAP_START HEAP_SIZE (mem s1) (fallback_allocator al) = (m, h) \<and>
    length fs = 75 \<and> distinct fs \<and>
    paging_ok VIRT_MAPPING_OFFSET (X \<union> (\<lambda>f. f + VIRT_MAPPING_OFFSET) ` set fs) root s1 fa' \<and>
    (\<forall>v. canonical v \<longrightarrow> translation VIRT_MAPPING_OFFSET root s1 v =
       (if unat HEAP_START \<le> unat v \<and> unat v < unat HEAP_START + unat HEAP_SIZE
        then Some (fs ! ((unat v - unat HEAP_START) div 4096))
        else translation VIRT_MAPPING_OFFSET root s v))"
proof -
  have start: "VirtAddr_new HEAP_START = HEAP_START" by (simp add: VirtAddr_new_def HEAP_START_def)
  have b: "unat HEAP_START + unat HEAP_SIZE < 2 ^ 47" by (simp add: HEAP_START_def HEAP_SIZE_def)
  note off = VirtAddr_offset_low [OF b]
  have e: "unat (HEAP_START + HEAP_SIZE) = unat HEAP_START + 4096 * 75"
    using off(2) by (simp add: HEAP_SIZE_def)
  have "page_aligned HEAP_START" by (simp add: page_aligned_def HEAP_START_def)
  moreover have "unat (HEAP_START + HEAP_SIZE) < 2 ^ 47" using b off(2) by simp
  moreover have "4 * 75 \<le> length (remaining fa)" using frames by simp
  moreover have "\<forall>v. unat HEAP_START \<le> unat v \<and> unat v < unat (HEAP_START + HEAP_SIZE) \<longrightarrow>
      translation VIRT_MAPPING_OFFSET root s v = None" using free off(2) by simp
  ultimately obtain s1 fa' fs where run: "map_heap fuel HEAP_START (HEAP_START + HEAP_SIZE) root s fa = Done (s1, fa')"
      "length fs = 75" "distinct fs"
      "paging_ok VIRT_MAPPING_OFFSET (X \<union> (\<lambda>f. f + VIRT_MAPPING_OFFSET) ` set fs) root s1 fa'"
      "\<forall>v. canonical v \<longrightarrow> translation VIRT_MAPPING_OFFSET root s1 v =
       (if unat HEAP_START \<le> unat v \<and> unat v < unat (HEAP_START + HEAP_SIZE)
        then Some (fs ! ((unat v - unat HEAP_START) div 4096)) else translation VIRT_MAPPING_OFFSET root s v)"
    using map_heap_run [OF ok _ e _ _ fuel] by blast
  obtain m h where mh: "heap_init HEAP_START HEAP_SIZE (mem s1) (fallback_allocator al) = (m, h)" by fastforce
  have "init_heap fuel heap_init root s fa al = Done (Inr (), s1\<lparr>mem := m\<rparr>, fa', al\<lparr>fallback_allocator := h\<rparr>)"
    using run(1) mh by (simp add: init_heap_def start off(1) FixedSizeBlockAllocator_init_def)
  then show ?thesis using run(2-5) [unfolded off(2)] mh
    by (intro exI [of _ s1] exI [of _ fa'] exI [of _ fs] exI [of _ m] exI [of _ h] conjI)
qed

section \<open>Example\<close>

text \<open>An allocator over 400 frames, enough for the heap and its page tables.\<close>

definition example_region :: MemoryRegion where
  "example_region = \<lparr>region_ty = Free, region_addr = 0x100000, page_count = 400\<rparr>"

definition example_large_allocator :: FrameAllocator where
  "example_large_allocator =
     FrameAllocator_new \<lparr>entries = [example_region], next_free_entry_idx = 1\<rparr> VIRT_MAPPING_OFFSET 0"

lemma example_region_ok: "region_ok example_region"
  by (simp add: region_ok_def example_region_def)

lemma example_large_remaining: "remaining example_large_allocator = region_frames example_region"
  by (simp add: example_large_allocator_def FrameAllocator_new_def remaining_def map_frames_def free_regions_def
      next_free_entry_index_def example_region_def)

lemma example_large_frame:
  "f \<in> set (remaining example_large_allocator) \<Longrightarrow> 0x100000 \<le> unat f \<and> unat f < 0x100000 + 4096 * 400"
  using unat_region_frame [OF example_region_ok] length_region_frames [OF example_region_ok]
  by (auto simp: example_large_remaining in_set_conv_nth) (simp_all add: example_region_def)

lemma example_large_ready: "fa_ready VIRT_MAPPING_OFFSET {} example_large_allocator"
proof -
  have "memory_map_ok (memory_map example_large_allocator)"
    by (simp add: example_large_allocator_def FrameAllocator_new_def memory_map_ok_def free_regions_def
        next_free_entry_index_def example_region_ok)
  moreover have "unat f + unat VIRT_MAPPING_OFFSET < 2 ^ 47" if "f \<in> set (remaining example_large_allocator)" for f
    using example_large_frame [OF that] by (simp add: VIRT_MAPPING_OFFSET_def)
  ultimately show ?thesis
    by (simp add: fa_ready_def fa_ok_def) (simp add: example_large_allocator_def FrameAllocator_new_def VIRT_MAPPING_OFFSET_def)
qed

lemma example_large_paging:
  "paging_ok VIRT_MAPPING_OFFSET {} VIRT_MAPPING_OFFSET example_machine example_large_allocator"
proof (rule paging_ok_empty [OF example_large_ready])
  have "0 \<notin> set (remaining example_large_allocator)" using example_large_frame [of 0] by auto
  then show "VIRT_MAPPING_OFFSET \<notin> fa_pool VIRT_MAPPING_OFFSET example_large_allocator \<union> {}"
    by (auto simp: fa_pool_def)
qed (simp_all add: example_machine_def page_aligned_def VIRT_MAPPING_OFFSET_def)

theorem init_heap_maps_region_witness:
  "\<exists>s1 fa' fs. init_heap 76 (\<lambda>_ _ m h. (m, h)) VIRT_MAPPING_OFFSET example_machine example_large_allocator
       (FixedSizeBlockAllocator_new ()) = Done (Inr (), s1, fa', FixedSizeBlockAllocator_new ()) \<and>
     distinct fs \<and> length fs = 75 \<and>
     translation VIRT_MAPPING_OFFSET VIRT_MAPPING_OFFSET s1 (HEAP_START + 0x1234) = Some (fs ! 1)"
proof -
  have "300 \<le> length (remaining example_large_allocator)"
    by (simp add: example_large_remaining length_region_frames [OF example_region_ok]) (simp add: example_region_def)
  from init_heap_maps_region [OF example_large_paging _ this, of 76 "\<lambda>_ _ m h. (m, h)" "FixedSizeBlockAllocator_new ()"]
  obtain s1 fa' fs where run: "init_heap 76 (\<lambda>_ _ m h. (m, h)) VIRT_MAPPING_OFFSET example_machine example_large_allocator
        (FixedSizeBlockAllocator_new ()) = Done (Inr (), s1, fa', FixedSizeBlockAllocator_new ())"
      "length fs = 75" "distinct fs"
      "\<forall>v. canonical v \<longrightarrow> translation VIRT_MAPPING_OFFSET VIRT_MAPPING_OFFSET s1 v =
       (if unat HEAP_START \<le> unat v \<and> unat v < unat HEAP_START + unat HEAP_SIZE
        then Some (fs ! ((unat v - unat HEAP_START) div 4096))
        else translation VIRT_MAPPING_OFFSET VIRT_MAPPING_OFFSET example_machine v)"
    by (auto simp: example_translation)
  have "canonical (HEAP_START + 0x1234)" by (rule low_half_canonical) (simp add: HEAP_START_def)
  then show ?thesis using run by (auto simp: HEAP_START_def HEAP_SIZE_def)
qed

end
