(* ===== verification/Interrupt_Flag.thy ===== *)
theory Interrupt_Flag
  imports Bits
begin

text \<open>
  Critical sections (\<^verbatim>\<open>shared_lib/src/interrupts.rs\<close>): \<open>without_interrupts\<close> reads the
  flags register, executes \<open>cli\<close> if it finds the interrupt flag set, runs the closure and executes
  \<open>sti\<close>. The processor is its flags register together with whatever else the closure works on.
\<close>

section \<open>The code\<close>

record 'a cpu =
  rflags :: u64
  rest :: 'a

definition cli :: "'a cpu \<Rightarrow> 'a cpu" where
  "cli s = s\<lparr>rflags := rflags s AND NOT 0x200\<rparr>"

definition sti :: "'a cpu \<Rightarrow> 'a cpu" where
  "sti s = s\<lparr>rflags := rflags s OR 0x200\<rparr>"

definition without_interrupts :: "('a cpu \<Rightarrow> 'r \<times> 'a cpu) \<Rightarrow> 'a cpu \<Rightarrow> 'r \<times> 'a cpu" where
  "without_interrupts f s =
     (let saved_intpt_flag = get_bits (rflags s) 9 10 = 1;
          s = (if saved_intpt_flag then cli s else s);
          (ret, s) = f s;
          s = (if saved_intpt_flag then sti s else s)
      in (ret, s))"

section \<open>The interrupt flag\<close>

definition interrupts_enabled :: "'a cpu \<Rightarrow> bool" where
  "interrupts_enabled s \<longleftrightarrow> bit (rflags s) 9"

lemma bit_0x200: "bit (0x200 :: int) i \<longleftrightarrow> i = 9"
proof -
  have "(0x200 :: int) = push_bit 9 (mask 1)" by simp
  then show ?thesis by (simp only: bit_push_bit_iff bit_mask_iff) auto
qed

lemma interrupts_enabled_cli [simp]: "\<not> interrupts_enabled (cli s)"
  by (simp add: interrupts_enabled_def cli_def bit_simps)

lemma interrupts_enabled_sti [simp]: "interrupts_enabled (sti s)"
  by (simp add: interrupts_enabled_def sti_def bit_simps)

text \<open>What the test of the saved flag amounts to.\<close>

lemma saved_flag_iff:
  "get_bits w 9 10 = 1 \<longleftrightarrow> bit w 9 \<and> (\<forall>i. 10 \<le> i \<and> i < 63 \<longrightarrow> \<not> bit w i)"
proof -
  have "get_bits w 9 10 = take_bit 54 (drop_bit 9 w)" by (simp add: get_bits_eq)
  also have "\<dots> = 1 \<longleftrightarrow> (\<forall>i<64. (i < 54 \<and> bit w (9 + i)) = (i = 0))"
    by (auto simp: word_bits_iff bit_simps bit_1_iff)
  also have "\<dots> \<longleftrightarrow> bit w 9 \<and> (\<forall>i. 10 \<le> i \<and> i < 63 \<longrightarrow> \<not> bit w i)"
  proof
    assume h: "\<forall>i<64. (i < 54 \<and> bit w (9 + i)) = (i = 0)"
    have "\<not> bit w i" if "10 \<le> i \<and> i < 63" for i
    proof -
      have "i - 9 < 54" "9 + (i - 9) = i" "i - 9 \<noteq> 0" using that by auto
      then show ?thesis using h [rule_format, of "i - 9"] by simp
    qed
    then show "bit w 9 \<and> (\<forall>i. 10 \<le> i \<and> i < 63 \<longrightarrow> \<not> bit w i)" using h [rule_format, of 0] by simp
  next
    assume h: "bit w 9 \<and> (\<forall>i. 10 \<le> i \<and> i < 63 \<longrightarrow> \<not> bit w i)"
    have "(i < 54 \<and> bit w (9 + i)) = (i = 0)" for i
      using h [THEN conjunct2, rule_format, of "9 + i"] h [THEN conjunct1] by (cases "i = 0") auto
    then show "\<forall>i<64. (i < 54 \<and> bit w (9 + i)) = (i = 0)" by blast
  qed
  finally show ?thesis .
qed

text \<open>A closure that works on the rest of the processor's state.\<close>

lemma without_interrupts_device:
  assumes "f (rest c) = Done d" "\<And>c'. g c' = (case f (rest c') of Done d \<Rightarrow> (Done (), c'\<lparr>rest := d\<rparr>) | Panic m \<Rightarrow> (Panic m, c') | Hang \<Rightarrow> (Hang, c'))"
  shows "\<exists>c'. without_interrupts g c = (Done (), c') \<and> rest c' = d \<and> (interrupts_enabled c' \<longleftrightarrow> interrupts_enabled c)"
proof (cases "get_bits (rflags c) 9 10 = 1")
  case True
  then have "interrupts_enabled c" by (simp add: saved_flag_iff interrupts_enabled_def)
  then show ?thesis using assms True by (simp add: without_interrupts_def cli_def sti_def interrupts_enabled_def bit_simps)
next
  case False
  then show ?thesis using assms by (simp add: without_interrupts_def interrupts_enabled_def)
qed

section \<open>Properties\<close>

text \<open>
  C30. The closure is entered with interrupts disabled exactly if they were disabled
  already or no flag between bit 10 and bit 62 was set: with any of these set (the direction flag, the
  overflow flag, the nested-task or identification flag) an enabled interrupt flag goes unnoticed
  and the closure runs with interrupts enabled.
\<close>

theorem without_interrupts_mask_iff:
  "interrupts_enabled (fst (without_interrupts (\<lambda>s. (s, s)) s)) \<longleftrightarrow>
     bit (rflags s) 9 \<and> (\<exists>i. 10 \<le> i \<and> i < 63 \<and> bit (rflags s) i)"
proof (cases "get_bits (rflags s) 9 10 = 1")
  case True
  then have "\<not> interrupts_enabled (fst (without_interrupts (\<lambda>s. (s, s)) s))"
    by (simp add: without_interrupts_def Let_def)
  then show ?thesis using True [unfolded saved_flag_iff] by blast
next
  case False
  then have "fst (without_interrupts (\<lambda>s. (s, s)) s) = s" by (simp add: without_interrupts_def Let_def)
  then show ?thesis using False [unfolded saved_flag_iff] by (simp only: interrupts_enabled_def) blast
qed

text \<open>
  Around a closure that leaves the interrupt flag alone,
  \<open>without_interrupts\<close> returns the result of the closure and restores the flag.
\<close>

theorem without_interrupts_restores:
  assumes "\<And>t. interrupts_enabled (snd (f t)) = interrupts_enabled t"
  shows "interrupts_enabled (snd (without_interrupts f s)) = interrupts_enabled s \<and>
    (\<exists>t. rest t = rest s \<and> fst (without_interrupts f s) = fst (f t))"
proof (cases "get_bits (rflags s) 9 10 = 1")
  case True
  then have "interrupts_enabled s" by (simp only: saved_flag_iff interrupts_enabled_def)
  moreover have "without_interrupts f s = (fst (f (cli s)), sti (snd (f (cli s))))"
    using True by (simp add: without_interrupts_def split_def Let_def)
  moreover have "rest (cli s) = rest s" by (simp add: cli_def)
  ultimately show ?thesis by auto
next
  case False
  then have "without_interrupts f s = f s" by (simp add: without_interrupts_def split_def Let_def)
  then show ?thesis using assms by auto
qed

theorem without_interrupts_restores_witness:
  "interrupts_enabled (snd (without_interrupts (\<lambda>t. (rest t, t\<lparr>rest := rest t + 1\<rparr>)) \<lparr>rflags = 0x202, rest = 5 :: nat\<rparr>))
     = interrupts_enabled \<lparr>rflags = 0x202, rest = 5 :: nat\<rparr>"
  using without_interrupts_restores [of "\<lambda>t. (rest t, t\<lparr>rest := rest t + 1\<rparr>)" "\<lparr>rflags = 0x202, rest = 5 :: nat\<rparr>"]
  by (simp add: interrupts_enabled_def)

end
