(* ===== verification/Gdt.thy ===== *)
theory Gdt
  imports Bits Addr
begin

text \<open>
  Segmentation (\<^verbatim>\<open>src/gdt.rs\<close>): the task state segment, selectors, the descriptor
  table with its eight slots, the descriptors of the kernel and the loading of the segment registers.
  The addresses of the statics (the table, the task state segment and the stack of the double-fault
  handler) are arguments.
\<close>

section \<open>The code\<close>

record TaskStateSegment =
  reserved_1 :: u32
  privilege_stack_table :: "VirtAddr list"
  reserved_2 :: u64
  interrupt_stack_table :: "VirtAddr list"
  reserved_3 :: u64
  reserved_4 :: u16
  iomap_base :: u16

text \<open>\<open>size_of::<TaskStateSegment>()\<close>: packed, 4 + 3 * 8 + 8 + 7 * 8 + 8 + 2 + 2 bytes.\<close>

definition SIZE_OF_TaskStateSegment :: usize where "SIZE_OF_TaskStateSegment = 104"

definition TaskStateSegment_new :: TaskStateSegment where
  "TaskStateSegment_new =
     \<lparr>reserved_1 = 0, privilege_stack_table = replicate 3 VirtAddr_zero, reserved_2 = 0,
      interrupt_stack_table = replicate 7 VirtAddr_zero, reserved_3 = 0, reserved_4 = 0,
      iomap_base = ucast SIZE_OF_TaskStateSegment\<rparr>"

definition DOUBLE_FAULT_IST_INDEX :: u16 where "DOUBLE_FAULT_IST_INDEX = 0"

definition STACK_SIZE :: usize where "STACK_SIZE = 4096 * 5"

definition TSS :: "u64 \<Rightarrow> TaskStateSegment" where
  "TSS stack =
     (let tss = TaskStateSegment_new;
          stack_start = VirtAddr_from_ptr stack;
          stack_end = VirtAddr_new (stack_start + STACK_SIZE)
      in tss\<lparr>interrupt_stack_table := (interrupt_stack_table tss)[unat DOUBLE_FAULT_IST_INDEX := stack_end]\<rparr>)"

datatype PrivilegeLevel = Ring0 | Ring1 | Ring2 | Ring3

primrec privilege_repr :: "PrivilegeLevel \<Rightarrow> u16" where
  "privilege_repr Ring0 = 0"
| "privilege_repr Ring1 = 1"
| "privilege_repr Ring2 = 2"
| "privilege_repr Ring3 = 3"

definition PrivilegeLevel_from_u16 :: "u16 \<Rightarrow> PrivilegeLevel outcome" where
  "PrivilegeLevel_from_u16 value =
     (if value = 0 then Done Ring0
      else if value = 1 then Done Ring1
      else if value = 2 then Done Ring2
      else if value = 3 then Done Ring3
      else Panic ''invalid privilege level'')"

type_synonym SegmentSelector = u16

definition SegmentSelector_new :: "u16 \<Rightarrow> PrivilegeLevel \<Rightarrow> SegmentSelector" where
  "SegmentSelector_new index rpl = push_bit 3 index OR privilege_repr rpl"

record DescriptorTablePointer =
  dtp_limit :: u16
  dtp_base :: VirtAddr

record GlobalDescriptorTable =
  gdt_table :: "u64 list"
  gdt_len :: usize

definition GlobalDescriptorTable_new :: GlobalDescriptorTable where
  "GlobalDescriptorTable_new = \<lparr>gdt_table = replicate 8 0, gdt_len = 1\<rparr>"

definition gdt_push :: "u64 \<Rightarrow> GlobalDescriptorTable \<Rightarrow> (usize \<times> GlobalDescriptorTable) outcome" where
  "gdt_push value self =
     (let index = gdt_len self
      in if unat index < length (gdt_table self)
         then Done (index, self\<lparr>gdt_table := (gdt_table self)[unat index := value], gdt_len := gdt_len self + 1\<rparr>)
         else Panic ''index out of bounds'')"

definition DF_ACCESSED :: u64 where "DF_ACCESSED = push_bit 40 1"
definition DF_WRITABLE :: u64 where "DF_WRITABLE = push_bit 41 1"
definition DF_CONFORMING :: u64 where "DF_CONFORMING = push_bit 42 1"
definition DF_EXECUTABLE :: u64 where "DF_EXECUTABLE = push_bit 43 1"
definition DF_USER_SEGMENT :: u64 where "DF_USER_SEGMENT = push_bit 44 1"
definition DF_DPL_RING_3 :: u64 where "DF_DPL_RING_3 = push_bit 45 3"
definition DF_PRESENT :: u64 where "DF_PRESENT = push_bit 47 1"
definition DF_AVAILABLE :: u64 where "DF_AVAILABLE = push_bit 52 1"
definition DF_LONG_MODE :: u64 where "DF_LONG_MODE = push_bit 53 1"
definition DF_DEFAULT_SIZE :: u64 where "DF_DEFAULT_SIZE = push_bit 54 1"
definition DF_GRANULARITY :: u64 where "DF_GRANULARITY = push_bit 55 1"
definition DF_LIMIT_0_15 :: u64 where "DF_LIMIT_0_15 = 0xFFFF"
definition DF_LIMIT_16_19 :: u64 where "DF_LIMIT_16_19 = push_bit 48 0xF"
definition DF_BASE_0_23 :: u64 where "DF_BASE_0_23 = push_bit 16 0xFFFFFF"
definition DF_BASE_24_31 :: u64 where "DF_BASE_24_31 = push_bit 56 0xFF"

lemmas DF_defs = DF_ACCESSED_def DF_WRITABLE_def DF_CONFORMING_def DF_EXECUTABLE_def DF_USER_SEGMENT_def
  DF_DPL_RING_3_def DF_PRESENT_def DF_AVAILABLE_def DF_LONG_MODE_def DF_DEFAULT_SIZE_def DF_GRANULARITY_def
  DF_LIMIT_0_15_def DF_LIMIT_16_19_def DF_BASE_0_23_def DF_BASE_24_31_def

datatype Descriptor = UserSegment u64 | SystemSegment u64 u64

definition kernel_code_segment :: Descriptor where
  "kernel_code_segment = UserSegment
     (DF_USER_SEGMENT OR DF_PRESENT OR DF_WRITABLE OR DF_ACCESSED OR DF_LIMIT_0_15 OR DF_LIMIT_16_19
      OR DF_GRANULARITY OR DF_EXECUTABLE OR DF_LONG_MODE)"

definition kernel_data_segment :: Descriptor where
  "kernel_data_segment = UserSegment
     (DF_USER_SEGMENT OR DF_PRESENT OR DF_WRITABLE OR DF_ACCESSED OR DF_LIMIT_0_15 OR DF_LIMIT_16_19
      OR DF_GRANULARITY OR DF_DEFAULT_SIZE)"

definition Descriptor_dpl :: "Descriptor \<Rightarrow> PrivilegeLevel outcome" where
  "Descriptor_dpl self =
     (let value_low = (case self of UserSegment v \<Rightarrow> v | SystemSegment v _ \<Rightarrow> v);
          dpl = drop_bit 45 (value_low AND DF_DPL_RING_3)
      in PrivilegeLevel_from_u16 (ucast dpl))"

definition tss_segment_unchecked :: "u64 \<Rightarrow> Descriptor" where
  "tss_segment_unchecked ptr =
     (let low = DF_PRESENT;
          low = set_bits_u64 low (get_bits ptr 0 24) 16;
          low = set_bits_u64 low (get_bits ptr 24 32) 56;
          low = set_bits_u64 low (SIZE_OF_TaskStateSegment - 1) 0;
          low = set_bits_u64 low 9 40;
          high = 0;
          high = set_bits_u64 high (get_bits ptr 32 64) 0
      in SystemSegment low high)"

definition tss_segment :: "u64 \<Rightarrow> Descriptor" where
  "tss_segment tss = tss_segment_unchecked tss"

definition gdt_add_entry :: "Descriptor \<Rightarrow> GlobalDescriptorTable \<Rightarrow> (SegmentSelector \<times> GlobalDescriptorTable) outcome" where
  "gdt_add_entry entry self =
     bindO (case entry of
        UserSegment value \<Rightarrow>
          if length (gdt_table self) - 1 < unat (gdt_len self) then Panic ''GDT full''
          else gdt_push value self
      | SystemSegment value_low value_high \<Rightarrow>
          if length (gdt_table self) - 2 < unat (gdt_len self)
          then Panic ''GDT requires two free spaces to hold a SystemSegment''
          else bindO (gdt_push value_low self) (\<lambda>(index, self).
               bindO (gdt_push value_high self) (\<lambda>(_, self). Done (index, self)))) (\<lambda>(index, self).
     bindO (Descriptor_dpl entry) (\<lambda>dpl.
     Done (SegmentSelector_new (ucast index) dpl, self)))"

definition gdt_pointer :: "u64 \<Rightarrow> GlobalDescriptorTable \<Rightarrow> DescriptorTablePointer" where
  "gdt_pointer table_ptr self =
     \<lparr>dtp_limit = ucast (gdt_len self * 8 - 1), dtp_base = VirtAddr_new table_ptr\<rparr>"

record GdtAndSelectors =
  gs_gdt :: GlobalDescriptorTable
  code_selector :: SegmentSelector
  tss_selector :: SegmentSelector
  data_selector :: SegmentSelector

definition GDT :: "u64 \<Rightarrow> GdtAndSelectors outcome" where
  "GDT tss =
     (let gdt = GlobalDescriptorTable_new in
      bindO (gdt_add_entry kernel_code_segment gdt) (\<lambda>(code, gdt).
      bindO (gdt_add_entry (tss_segment tss) gdt) (\<lambda>(tss, gdt).
      bindO (gdt_add_entry kernel_data_segment gdt) (\<lambda>(data, gdt).
      Done \<lparr>gs_gdt = gdt, code_selector = code, tss_selector = tss, data_selector = data\<rparr>))))"

text \<open>The registers that \<open>lgdt\<close>, the far return, the moves and \<open>ltr\<close> load.\<close>

record segments =
  gdtr :: DescriptorTablePointer
  cs :: u16
  ds :: u16
  es :: u16
  ss :: u16
  tr :: u16

definition load_unsafe :: "u64 \<Rightarrow> GlobalDescriptorTable \<Rightarrow> segments \<Rightarrow> segments" where
  "load_unsafe table_ptr self r = r\<lparr>gdtr := gdt_pointer table_ptr self\<rparr>"

definition gdt_init :: "u64 \<Rightarrow> u64 \<Rightarrow> segments \<Rightarrow> segments outcome" where
  "gdt_init tss table_ptr r =
     bindO (GDT tss) (\<lambda>g.
       let r = load_unsafe table_ptr (gs_gdt g) r;
           r = r\<lparr>cs := code_selector g\<rparr>;
           r = r\<lparr>ds := data_selector g\<rparr>;
           r = r\<lparr>es := data_selector g\<rparr>;
           r = r\<lparr>ss := data_selector g\<rparr>;
           r = r\<lparr>tr := tss_selector g\<rparr>
       in Done r)"

section \<open>The table\<close>

text \<open>A table between calls: eight slots, of which the first is null and the rest from \<open>gdt_len\<close> on unused.\<close>

definition gdt_wf :: "GlobalDescriptorTable \<Rightarrow> bool" where
  "gdt_wf g \<longleftrightarrow> length (gdt_table g) = 8 \<and> 1 \<le> unat (gdt_len g) \<and> unat (gdt_len g) \<le> 8 \<and> gdt_table g ! 0 = 0"

primrec slots :: "Descriptor \<Rightarrow> u64 list" where
  "slots (UserSegment v) = [v]"
| "slots (SystemSegment lo hi) = [lo, hi]"

lemma gdt_wf_new: "gdt_wf GlobalDescriptorTable_new"
  by (simp add: gdt_wf_def GlobalDescriptorTable_new_def)

lemma gdt_push_ok:
  assumes "length (gdt_table g) = 8" "unat (gdt_len g) < 8"
  shows "gdt_push v g = Done (gdt_len g, g\<lparr>gdt_table := (gdt_table g)[unat (gdt_len g) := v], gdt_len := gdt_len g + 1\<rparr>)"
    and "unat (gdt_len g + 1) = Suc (unat (gdt_len g))"
  using assms by (simp_all add: gdt_push_def unat_word_ariths Let_def)

lemma bit_3: "bit (3 :: int) i \<longleftrightarrow> i < 2"
  using bit_mask_iff [of 2 i, where 'a = int] by (simp add: mask_eq_exp_minus_1)

lemma dpl_bits: "(ucast (drop_bit 45 (v AND DF_DPL_RING_3)) :: u16) = ucast (take_bit 2 (drop_bit 45 v))" for v :: u64
  by (rule bit_word_eqI) (auto simp: DF_DPL_RING_3_def bit_simps bit_3 dest: bit_imp_le_length)

lemma Descriptor_dpl_Done: "\<exists>p. Descriptor_dpl d = Done p \<and> privilege_repr p = ucast (take_bit 2 (drop_bit 45 (slots d ! 0)))"
proof -
  let ?w = "ucast (take_bit 2 (drop_bit 45 (slots d ! 0))) :: u16"
  have "unat (take_bit 2 (drop_bit 45 (slots d ! 0))) < 4"
    using unat_take_bit_less [of 2 "drop_bit 45 (slots d ! 0)"] by simp
  then have "unat ?w < 4" by (simp add: unsigned_ucast_eq take_bit_nat_eq_self)
  then have "?w = 0 \<or> ?w = 1 \<or> ?w = 2 \<or> ?w = 3" by (auto simp: word_unat_eq_iff)
  moreover have "Descriptor_dpl d = PrivilegeLevel_from_u16 ?w"
    by (cases d) (simp_all only: Descriptor_dpl_def Let_def dpl_bits Descriptor.case slots.simps nth_Cons_0)
  ultimately show ?thesis by (auto simp: PrivilegeLevel_from_u16_def)
qed

text \<open>What a selector carries.\<close>

definition selector_index :: "SegmentSelector \<Rightarrow> nat" where
  "selector_index sel = unat (drop_bit 3 sel)"

lemma selector_parts:
  assumes "unat i < 8"
  shows "selector_index (SegmentSelector_new (ucast (i :: u64)) p) = unat i"
    and "take_bit 2 (SegmentSelector_new (ucast i) p) = privilege_repr p"
proof -
  have p: "unat (privilege_repr p) < 4" by (cases p) simp_all
  have small: "bit (privilege_repr p) k \<Longrightarrow> k < 2" for k
  proof -
    have "take_bit 2 (privilege_repr p) = privilege_repr p"
      using p by (simp add: word_unat_eq_iff unsigned_take_bit_eq take_bit_nat_eq_self)
    then show "bit (privilege_repr p) k \<Longrightarrow> k < 2" by (metis bit_take_bit_iff)
  qed
  have i: "bit i k \<Longrightarrow> k < 3" for k
  proof -
    have "take_bit 3 i = i"
      using assms by (simp add: word_unat_eq_iff unsigned_take_bit_eq take_bit_nat_eq_self)
    then show "bit i k \<Longrightarrow> k < 3" by (metis bit_take_bit_iff)
  qed
  have "drop_bit 3 (SegmentSelector_new (ucast i) p) = ucast i"
    by (rule bit_word_eqI) (auto simp: SegmentSelector_new_def bit_simps dest: small i)
  then show "selector_index (SegmentSelector_new (ucast i) p) = unat i"
    using assms by (simp add: selector_index_def unsigned_ucast_eq take_bit_nat_eq_self)
  show "take_bit 2 (SegmentSelector_new (ucast i) p) = privilege_repr p"
    by (rule bit_word_eqI) (auto simp: SegmentSelector_new_def bit_simps dest: small)
qed

text \<open>The fields of a 64-bit system descriptor, as the processor reads them.\<close>

definition descriptor_base :: "u64 \<Rightarrow> u64 \<Rightarrow> u64" where
  "descriptor_base lo hi = take_bit 24 (drop_bit 16 lo) OR push_bit 24 (drop_bit 56 lo) OR push_bit 32 hi"

definition descriptor_limit_low :: "u64 \<Rightarrow> u64" where
  "descriptor_limit_low lo = take_bit 16 lo"

definition descriptor_access :: "u64 \<Rightarrow> u64" where
  "descriptor_access lo = take_bit 8 (drop_bit 40 lo)"

lemma tss_segment_words:
  "tss_segment ptr = SystemSegment
     (DF_PRESENT OR push_bit 16 (take_bit 40 ptr) OR push_bit 56 (take_bit 32 (drop_bit 24 ptr)) OR 103 OR push_bit 40 9)
     (drop_bit 32 ptr)"
  by (simp add: tss_segment_def tss_segment_unchecked_def set_bits_u64_def get_bits_eq or.assoc
      SIZE_OF_TaskStateSegment_def) (simp add: get_bits_def)

lemma tss_base_bits:
  "take_bit 24 (drop_bit 16 (push_bit 16 (take_bit 40 p))) OR push_bit 24 (drop_bit 56 (push_bit 56 (take_bit 32 (drop_bit 24 p))))
     OR push_bit 32 (drop_bit 32 p) = p" for p :: u64
proof (rule bit_word_eqI)
  fix i :: nat assume "i < LENGTH(64)"
  then consider "i < 24" | "24 \<le> i" "i < 32" | "32 \<le> i" "i < 64" by fastforce
  then show "bit (take_bit 24 (drop_bit 16 (push_bit 16 (take_bit 40 p))) OR
      push_bit 24 (drop_bit 56 (push_bit 56 (take_bit 32 (drop_bit 24 p)))) OR push_bit 32 (drop_bit 32 p)) i = bit p i"
    by cases (auto simp: bit_simps)
qed

lemma tss_access_bits: "take_bit 8 (drop_bit 40 (push_bit 16 (take_bit 40 p))) = take_bit 8 (drop_bit 24 p)" for p :: u64
  by (rule bit_word_eqI) (auto simp: bit_simps)

lemma zero_parts:
  "take_bit 24 (drop_bit 16 (push_bit 56 w)) = 0" "take_bit 8 (drop_bit 40 (push_bit 56 w)) = 0"
  "drop_bit 56 (push_bit 16 (take_bit 40 w)) = 0" for w :: u64
  by (rule bit_word_eqI; auto simp: bit_simps)+

lemma gdt_add_entry_ok:
  assumes wf: "gdt_wf g" and room: "unat (gdt_len g) + length (slots d) \<le> 8"
  shows "\<exists>sel g'. gdt_add_entry d g = Done (sel, g') \<and> gdt_wf g' \<and>
    selector_index sel = unat (gdt_len g) \<and> take_bit 2 sel = ucast (take_bit 2 (drop_bit 45 (slots d ! 0))) \<and>
    unat (gdt_len g') = unat (gdt_len g) + length (slots d) \<and>
    gdt_table g' = take (unat (gdt_len g)) (gdt_table g) @ slots d @ drop (unat (gdt_len g')) (gdt_table g)"
proof -
  let ?n = "unat (gdt_len g)"
  have len: "length (gdt_table g) = 8" "1 \<le> ?n" "?n \<le> 8" "gdt_table g ! 0 = 0" using wf by (simp_all add: gdt_wf_def)
  obtain p where p: "Descriptor_dpl d = Done p" "privilege_repr p = ucast (take_bit 2 (drop_bit 45 (slots d ! 0)))"
    using Descriptor_dpl_Done by blast
  have n: "?n < 8" using room by (cases d) simp_all
  note push = gdt_push_ok [OF len(1) n]
  note sel = selector_parts [of "gdt_len g" p, OF n]
  have upd: "xs[k := v] = take k xs @ v # drop (Suc k) xs" if "k < length xs" for xs :: "u64 list" and k v
    using that by (rule upd_conv_take_nth_drop)
  have hd: "(take ?n (gdt_table g) @ ys) ! 0 = 0" for ys using len n by (simp add: nth_append)
  show ?thesis
  proof (cases d)
    case (UserSegment v)
    have "gdt_add_entry d g = Done (SegmentSelector_new (ucast (gdt_len g)) p,
        g\<lparr>gdt_table := (gdt_table g)[?n := v], gdt_len := gdt_len g + 1\<rparr>)"
      using UserSegment room len p push(1) by (simp add: gdt_add_entry_def)
    then show ?thesis
      using UserSegment len n push(2) sel p(2) hd [of "v # drop (Suc ?n) (gdt_table g)"]
      by (simp add: gdt_wf_def upd)
  next
    case (SystemSegment lo hi)
    let ?g1 = "g\<lparr>gdt_table := (gdt_table g)[?n := lo], gdt_len := gdt_len g + 1\<rparr>"
    have n1: "unat (gdt_len ?g1) < 8" using room SystemSegment push(2) by simp
    note push1 = gdt_push_ok [of ?g1, OF _ n1]
    have u2: "unat (gdt_len g + 1 + 1) = Suc (Suc ?n)" using push1(2) push(2) len by simp
    have tab: "(gdt_table g)[?n := lo, Suc ?n := hi] = take ?n (gdt_table g) @ lo # hi # drop (Suc (Suc ?n)) (gdt_table g)"
      using n1 push(2) len n by (simp add: upd list_update_append)
    have "gdt_add_entry d g = Done (SegmentSelector_new (ucast (gdt_len g)) p,
        ?g1\<lparr>gdt_table := (gdt_table ?g1)[Suc ?n := hi], gdt_len := gdt_len ?g1 + 1\<rparr>)"
      using SystemSegment room len p push push1 by (simp add: gdt_add_entry_def)
    then show ?thesis
      using SystemSegment room len n push(2) u2 sel p(2) tab hd [of "lo # hi # drop (Suc (Suc ?n)) (gdt_table g)"]
      by (simp add: gdt_wf_def)
  qed
qed

lemma gdt_add_entry_full:
  assumes wf: "gdt_wf g" and full: "8 < unat (gdt_len g) + length (slots d)"
  shows "\<exists>e. gdt_add_entry d g = Panic e"
  using assms by (cases d) (auto simp: gdt_wf_def gdt_add_entry_def)

lemma kernel_segments:
  "kernel_code_segment = UserSegment 0xaf9b000000ffff" "kernel_data_segment = UserSegment 0xcf93000000ffff"
  by (simp_all add: kernel_code_segment_def kernel_data_segment_def DF_defs)

section \<open>Properties\<close>

text \<open>
  \<open>add_entry\<close> panics exactly if the table has too few free slots; otherwise the
  descriptor occupies the next one or two slots, the selector returned indexes the first of them with
  the privilege level of the descriptor, and every other slot, the null descriptor included, is kept.
\<close>

theorem gdt_add_entry_spec:
  assumes "gdt_wf g"
  shows "if unat (gdt_len g) + length (slots d) \<le> 8
    then \<exists>sel g'. gdt_add_entry d g = Done (sel, g') \<and> gdt_wf g' \<and> selector_index sel = unat (gdt_len g) \<and>
      take_bit 2 sel = ucast (take_bit 2 (drop_bit 45 (slots d ! 0))) \<and>
      gdt_table g' = take (unat (gdt_len g)) (gdt_table g) @ slots d @ drop (unat (gdt_len g')) (gdt_table g)
    else \<exists>e. gdt_add_entry d g = Panic e"
  using gdt_add_entry_ok [OF assms, of d] gdt_add_entry_full [OF assms, of d] by auto

theorem gdt_add_entry_spec_witness:
  "\<exists>sel g'. gdt_add_entry (SystemSegment 5 6) GlobalDescriptorTable_new = Done (sel, g') \<and> selector_index sel = 1"
  using gdt_add_entry_spec [OF gdt_wf_new, of "SystemSegment 5 6"]
  by (auto simp: GlobalDescriptorTable_new_def)

text \<open>
  The descriptor built for the task state segment carries its address as base and
  its size minus one as limit. Its access byte is that of an available 64-bit task state segment,
  \<open>0x89\<close>, combined with bits 24 to 31 of the address, which \<open>get_bits\<close> does not cut off.
\<close>

theorem tss_descriptor_fields:
  "\<exists>lo hi. tss_segment ptr = SystemSegment lo hi \<and> descriptor_base lo hi = ptr \<and>
     descriptor_limit_low lo = 103 \<and> descriptor_access lo = 0x89 OR take_bit 8 (drop_bit 24 ptr)"
proof -
  let ?lo = "DF_PRESENT OR push_bit 16 (take_bit 40 ptr) OR push_bit 56 (take_bit 32 (drop_bit 24 ptr)) OR 103 OR push_bit 40 9"
  have "descriptor_base ?lo (drop_bit 32 ptr) = ptr"
    using tss_base_bits [of ptr]
    by (simp add: descriptor_base_def zero_parts DF_PRESENT_def)
  moreover have "descriptor_limit_low ?lo = 103"
    by (simp add: descriptor_limit_low_def DF_PRESENT_def take_bit_push_bit)
  moreover have "descriptor_access ?lo = 0x89 OR take_bit 8 (drop_bit 24 ptr)"
    by (simp add: descriptor_access_def zero_parts tss_access_bits DF_PRESENT_def or.commute or.left_commute)
  ultimately show ?thesis by (simp add: tss_segment_words)
qed



end
