(* ===== verification/Idt.thy ===== *)
theory Idt
  imports Bits Addr
begin

text \<open>
  The interrupt descriptor table (\<^verbatim>\<open>src/idt.rs\<close>): gate entries, the table as a structure
  with one field per exception, and its indexing by vector number. A handler is its address; the code
  segment register is an argument. The fields of the table in memory, in declaration order, are
  \<open>idt_vectors\<close>: that is how the processor sees the structure.
\<close>

section \<open>The code\<close>

type_synonym EntryOptions = u16

definition EntryOptions_minimal :: EntryOptions where
  "EntryOptions_minimal = 0xe00"

definition set_present :: "EntryOptions \<Rightarrow> EntryOptions" where
  "set_present self = self OR push_bit 15 1"

definition set_stack_index :: "u16 \<Rightarrow> EntryOptions \<Rightarrow> EntryOptions" where
  "set_stack_index index self = self OR ucast (get_bits (ucast (index + 1)) 0 3)"

record Entry =
  pointer_low :: u16
  gdt_selector :: u16
  options :: EntryOptions
  pointer_middle :: u16
  pointer_high :: u32
  entry_reserved :: u32

definition Entry_missing :: Entry where
  "Entry_missing =
     \<lparr>pointer_low = 0, gdt_selector = 0, options = EntryOptions_minimal, pointer_middle = 0,
      pointer_high = 0, entry_reserved = 0\<rparr>"

definition set_handler_addr :: "u16 \<Rightarrow> VirtAddr \<Rightarrow> Entry \<Rightarrow> Entry" where
  "set_handler_addr cs addr self =
     (let self = self\<lparr>pointer_low := ucast addr\<rparr>;
          self = self\<lparr>pointer_middle := ucast (drop_bit 16 addr)\<rparr>;
          self = self\<lparr>pointer_high := ucast (drop_bit 32 addr)\<rparr>;
          self = self\<lparr>gdt_selector := cs\<rparr>
      in self\<lparr>options := set_present (options self)\<rparr>)"

definition to_virt_addr :: "u64 \<Rightarrow> VirtAddr" where
  "to_virt_addr handler = VirtAddr_new handler"

definition set_handler_fn :: "u16 \<Rightarrow> u64 \<Rightarrow> Entry \<Rightarrow> Entry" where
  "set_handler_fn cs handler self = set_handler_addr cs (to_virt_addr handler) self"

definition handler_addr :: "Entry \<Rightarrow> VirtAddr" where
  "handler_addr self =
     VirtAddr_new (ucast (pointer_low self) OR push_bit 16 (ucast (pointer_middle self))
       OR push_bit 32 (ucast (pointer_high self)))"

record InterruptDescriptorTable =
  divide_error :: "Entry"
  debug_entry :: "Entry"
  non_maskable_interrupt :: "Entry"
  breakpoint :: "Entry"
  overflow :: "Entry"
  bound_range_exceeded :: "Entry"
  invalid_opcode :: "Entry"
  device_not_available :: "Entry"
  double_fault :: "Entry"
  coprocessor_segment_overrun :: "Entry"
  invalid_tss :: "Entry"
  segment_not_present :: "Entry"
  stack_segment_fault :: "Entry"
  general_protection_fault :: "Entry"
  page_fault :: "Entry"
  idt_reserved_1 :: "Entry"
  x87_floating_point :: "Entry"
  alignment_check :: "Entry"
  machine_check :: "Entry"
  simd_floating_point :: "Entry"
  virtualization :: "Entry"
  cp_protection_exception :: "Entry"
  idt_reserved_2 :: "Entry list"
  hv_injection_exception :: "Entry"
  vmm_communication_exception :: "Entry"
  security_exception :: "Entry"
  idt_reserved_3 :: "Entry"
  interrupts :: "Entry list"

definition idt_index :: "usize \<Rightarrow> InterruptDescriptorTable \<Rightarrow> Entry outcome" where
  "idt_index index self =
     (if index = 0 then Done (divide_error self)
      else if index = 1 then Done (debug_entry self)
      else if index = 2 then Done (non_maskable_interrupt self)
      else if index = 3 then Done (breakpoint self)
      else if index = 4 then Done (overflow self)
      else if index = 5 then Done (bound_range_exceeded self)
      else if index = 6 then Done (invalid_opcode self)
      else if index = 7 then Done (device_not_available self)
      else if index = 9 then Done (coprocessor_segment_overrun self)
      else if index = 16 then Done (x87_floating_point self)
      else if index = 19 then Done (simd_floating_point self)
      else if index = 20 then Done (virtualization self)
      else if 32 \<le> index \<and> index \<le> 255 then Done (interrupts self ! (unat index - 32))
      else if index = 15 \<or> index = 31 \<or> 21 \<le> index \<and> index \<le> 28 then Panic ''entry is reserved''
      else if index = 8 \<or> 10 \<le> index \<and> index \<le> 14 \<or> index = 17 \<or> index = 29 \<or> index = 30
        then Panic ''entry is an exception with error code''
      else if index = 18 then Panic ''entry is an diverging exception (must not return)''
      else Panic ''no entry with index'')"

text \<open>\<open>index_mut\<close>, with what the caller does through the reference.\<close>

definition idt_index_mut :: "usize \<Rightarrow> (Entry \<Rightarrow> Entry) \<Rightarrow> InterruptDescriptorTable \<Rightarrow> InterruptDescriptorTable outcome" where
  "idt_index_mut index f self =
     (if index = 0 then Done (self\<lparr>divide_error := f (divide_error self)\<rparr>)
      else if index = 1 then Done (self\<lparr>debug_entry := f (debug_entry self)\<rparr>)
      else if index = 2 then Done (self\<lparr>non_maskable_interrupt := f (non_maskable_interrupt self)\<rparr>)
      else if index = 3 then Done (self\<lparr>breakpoint := f (breakpoint self)\<rparr>)
      else if index = 4 then Done (self\<lparr>overflow := f (overflow self)\<rparr>)
      else if index = 5 then Done (self\<lparr>bound_range_exceeded := f (bound_range_exceeded self)\<rparr>)
      else if index = 6 then Done (self\<lparr>invalid_opcode := f (invalid_opcode self)\<rparr>)
      else if index = 7 then Done (self\<lparr>device_not_available := f (device_not_available self)\<rparr>)
      else if index = 9 then Done (self\<lparr>coprocessor_segment_overrun := f (coprocessor_segment_overrun self)\<rparr>)
      else if index = 16 then Done (self\<lparr>x87_floating_point := f (x87_floating_point self)\<rparr>)
      else if index = 19 then Done (self\<lparr>simd_floating_point := f (simd_floating_point self)\<rparr>)
      else if index = 20 then Done (self\<lparr>virtualization := f (virtualization self)\<rparr>)
      else if 32 \<le> index \<and> index \<le> 255
        then Done (self\<lparr>interrupts := (interrupts self)[unat index - 32 := f (interrupts self ! (unat index - 32))]\<rparr>)
      else if index = 15 \<or> index = 31 \<or> 21 \<le> index \<and> index \<le> 28 then Panic ''entry is reserved''
      else if index = 8 \<or> 10 \<le> index \<and> index \<le> 14 \<or> index = 17 \<or> index = 29 \<or> index = 30
        then Panic ''entry is an exception with error code''
      else if index = 18 then Panic ''entry is an diverging exception (must not return)''
      else Panic ''no entry with index'')"

definition InterruptDescriptorTable_new :: InterruptDescriptorTable where
  "InterruptDescriptorTable_new =
     \<lparr>divide_error = Entry_missing,
      debug_entry = Entry_missing,
      non_maskable_interrupt = Entry_missing,
      breakpoint = Entry_missing,
      overflow = Entry_missing,
      bound_range_exceeded = Entry_missing,
      invalid_opcode = Entry_missing,
      device_not_available = Entry_missing,
      double_fault = Entry_missing,
      coprocessor_segment_overrun = Entry_missing,
      invalid_tss = Entry_missing,
      segment_not_present = Entry_missing,
      stack_segment_fault = Entry_missing,
      general_protection_fault = Entry_missing,
      page_fault = Entry_missing,
      idt_reserved_1 = Entry_missing,
      x87_floating_point = Entry_missing,
      alignment_check = Entry_missing,
      machine_check = Entry_missing,
      simd_floating_point = Entry_missing,
      virtualization = Entry_missing,
      cp_protection_exception = Entry_missing,
      idt_reserved_2 = replicate 6 Entry_missing,
      hv_injection_exception = Entry_missing,
      vmm_communication_exception = Entry_missing,
      security_exception = Entry_missing,
      idt_reserved_3 = Entry_missing,
      interrupts = replicate 224 Entry_missing\<rparr>"

record IdtPointer =
  idt_limit :: u16
  idt_base :: VirtAddr

text \<open>\<open>size_of::<InterruptDescriptorTable>()\<close>: 256 entries of 16 bytes.\<close>

definition SIZE_OF_InterruptDescriptorTable :: usize where
  "SIZE_OF_InterruptDescriptorTable = 4096"

definition idt_pointer :: "u64 \<Rightarrow> IdtPointer" where
  "idt_pointer self_ptr =
     \<lparr>idt_limit = ucast (SIZE_OF_InterruptDescriptorTable - 1), idt_base = VirtAddr_new self_ptr\<rparr>"

section \<open>The table in memory\<close>

definition idt_exceptions :: "InterruptDescriptorTable \<Rightarrow> Entry list" where
  "idt_exceptions idt =
      [divide_error idt, debug_entry idt, non_maskable_interrupt idt, breakpoint idt, overflow idt, bound_range_exceeded idt, invalid_opcode idt, device_not_available idt, double_fault idt, coprocessor_segment_overrun idt, invalid_tss idt, segment_not_present idt, stack_segment_fault idt, general_protection_fault idt, page_fault idt, idt_reserved_1 idt, x87_floating_point idt, alignment_check idt, machine_check idt, simd_floating_point idt, virtualization idt, cp_protection_exception idt] @
      idt_reserved_2 idt @
      [hv_injection_exception idt, vmm_communication_exception idt, security_exception idt, idt_reserved_3 idt]"

definition idt_vectors :: "InterruptDescriptorTable \<Rightarrow> Entry list" where
  "idt_vectors idt = idt_exceptions idt @ interrupts idt"

text \<open>The arrays have the lengths of their types.\<close>

definition idt_wf :: "InterruptDescriptorTable \<Rightarrow> bool" where
  "idt_wf idt \<longleftrightarrow> length (idt_reserved_2 idt) = 6 \<and> length (interrupts idt) = 224"

text \<open>The vectors that \<open>index\<close> gives access to.\<close>

definition indexable :: "nat \<Rightarrow> bool" where
  "indexable n \<longleftrightarrow> n \<le> 7 \<or> n = 9 \<or> n = 16 \<or> n = 19 \<or> n = 20 \<or> 32 \<le> n \<and> n \<le> 255"

definition is_present_entry :: "Entry \<Rightarrow> bool" where
  "is_present_entry e \<longleftrightarrow> bit (options e) 15"

lemma length_idt_exceptions: "idt_wf idt \<Longrightarrow> length (idt_exceptions idt) = 32"
  by (simp add: idt_exceptions_def idt_wf_def)

lemma length_idt_vectors: "idt_wf idt \<Longrightarrow> length (idt_vectors idt) = 256"
  by (simp add: idt_vectors_def length_idt_exceptions) (simp add: idt_wf_def)

lemma idt_vectors_high:
  assumes "idt_wf idt" "32 \<le> n"
  shows "idt_vectors idt ! n = interrupts idt ! (n - 32)"
    and "(idt_vectors idt)[n := e] = idt_vectors (idt\<lparr>interrupts := (interrupts idt)[n - 32 := e]\<rparr>)"
  using assms length_idt_exceptions [OF assms(1)]
  by (simp_all add: idt_vectors_def nth_append list_update_append) (simp add: idt_exceptions_def)

lemma indexable_cases:
  fixes i :: usize
  assumes "indexable (unat i)"
  obtains "i = 0" | "i = 1" | "i = 2" | "i = 3" | "i = 4" | "i = 5" | "i = 6" | "i = 7" | "i = 9" | "i = 16"
    | "i = 19" | "i = 20" | "32 \<le> i" "i \<le> 255"
proof -
  have "unat i \<in> {0, 1, 2, 3, 4, 5, 6, 7, 9, 16, 19, 20} \<or> 32 \<le> unat i \<and> unat i \<le> 255"
    using assms unfolding indexable_def by (simp only: insert_iff empty_iff) arith
  then show ?thesis using that by (auto simp: word_unat_eq_iff word_le_nat_alt)
qed

lemma idt_index_indexable:
  assumes wf: "idt_wf idt" and i: "indexable (unat i)"
  shows "idt_index i idt = Done (idt_vectors idt ! unat i)"
  using i
proof (rule indexable_cases)
  assume h: "32 \<le> i" "i \<le> 255"
  then have "32 \<le> unat i" by (simp add: word_le_nat_alt)
  moreover have "i \<noteq> k" if "k < 32" for k using h(1) that by auto
  ultimately show ?thesis using idt_vectors_high(1) [OF wf] h by (simp add: idt_index_def)
qed (simp_all add: idt_index_def idt_vectors_def idt_exceptions_def)

lemma idt_index_mut_indexable:
  assumes wf: "idt_wf idt" and i: "indexable (unat i)"
  shows "\<exists>idt'. idt_index_mut i f idt = Done idt' \<and> idt_wf idt' \<and>
    idt_vectors idt' = (idt_vectors idt)[unat i := f (idt_vectors idt ! unat i)]"
  using i
proof (rule indexable_cases)
  assume h: "32 \<le> i" "i \<le> 255"
  then have "32 \<le> unat i" by (simp add: word_le_nat_alt)
  moreover have "i \<noteq> k" if "k < 32" for k using h(1) that by auto
  ultimately show ?thesis using idt_vectors_high [OF wf] h wf by (simp add: idt_index_mut_def idt_wf_def)
qed (use wf in \<open>simp_all add: idt_index_mut_def idt_vectors_def idt_exceptions_def idt_wf_def\<close>)

lemma not_indexable_panics:
  assumes "\<not> indexable (unat i)"
  shows "\<exists>e. idt_index i idt = Panic e" "\<exists>e. idt_index_mut i f idt = Panic e"
proof -
  have "i \<notin> {0, 1, 2, 3, 4, 5, 6, 7, 9, 16, 19, 20}" "\<not> (32 \<le> i \<and> i \<le> 255)"
    using assms by (auto simp: indexable_def word_le_nat_alt)
  then show "\<exists>e. idt_index i idt = Panic e" "\<exists>e. idt_index_mut i f idt = Panic e"
    by (simp_all add: idt_index_def idt_index_mut_def)
qed

section \<open>Entries\<close>

lemma handler_addr_set: "handler_addr (set_handler_addr cs addr e) = VirtAddr_new addr"
proof -
  have "(ucast (ucast addr :: u16) :: u64) OR push_bit 16 (ucast (ucast (drop_bit 16 addr) :: u16))
      OR push_bit 32 (ucast (ucast (drop_bit 32 addr) :: u32)) = addr"
  proof (rule bit_word_eqI)
    fix i :: nat assume "i < LENGTH(64)"
    then consider "i < 16" | "16 \<le> i" "i < 32" | "32 \<le> i" "i < 64" by fastforce
    then show "bit ((ucast (ucast addr :: u16) :: u64) OR push_bit 16 (ucast (ucast (drop_bit 16 addr) :: u16))
      OR push_bit 32 (ucast (ucast (drop_bit 32 addr) :: u32))) i = bit addr i"
      by cases (auto simp: bit_simps)
  qed
  then show ?thesis by (simp add: handler_addr_def set_handler_addr_def Let_def)
qed

lemma set_handler_fields:
  "gdt_selector (set_handler_fn cs h e) = cs"
  "options (set_handler_fn cs h e) = options e OR 0x8000"
  "handler_addr (set_handler_fn cs h e) = VirtAddr_new h"
  by (simp_all add: set_handler_fn_def to_virt_addr_def handler_addr_set)
    (simp_all add: set_handler_addr_def set_present_def Let_def)

section \<open>Properties\<close>



text \<open>
  C29. Setting a handler makes the entry present, with the current code selector and all other option
  bits kept, and the address read back is the canonical address of the handler.
\<close>

theorem idt_handler_roundtrip:
  "handler_addr (set_handler_fn cs h e) = VirtAddr_new h \<and> gdt_selector (set_handler_fn cs h e) = cs \<and>
   is_present_entry (set_handler_fn cs h e) \<and>
   (\<forall>k. k \<noteq> 15 \<longrightarrow> bit (options (set_handler_fn cs h e)) k = bit (options e) k)"
proof -
  have "bit (0x8000 :: int) k \<longleftrightarrow> k = 15" for k
  proof -
    have "(0x8000 :: int) = push_bit 15 (mask 1)" by simp
    then show ?thesis by (simp only: bit_push_bit_iff bit_mask_iff) auto
  qed
  then show ?thesis by (auto simp: set_handler_fields is_present_entry_def bit_simps)
qed

theorem idt_handler_roundtrip_witness:
  "\<forall>e. bit (options (set_handler_fn 8 0x201234 e)) 0 = bit (options e) 0"
  using idt_handler_roundtrip [of 8 "0x201234"] by simp

end
