(* ===== verification/Port.thy ===== *)
theory Port
  imports Ferr_Prelude
begin

text \<open>
  Port I/O (\<^verbatim>\<open>src/port.rs\<close>). The hardware behind the ports is a parameter, a record of its
  reactions to the six kinds of port instructions on its state \<open>'d\<close>.
\<close>

record 'd bus =
  bus_out8 :: "u16 \<Rightarrow> u8 \<Rightarrow> 'd \<Rightarrow> 'd"
  bus_out16 :: "u16 \<Rightarrow> u16 \<Rightarrow> 'd \<Rightarrow> 'd"
  bus_out32 :: "u16 \<Rightarrow> u32 \<Rightarrow> 'd \<Rightarrow> 'd"
  bus_in8 :: "u16 \<Rightarrow> 'd \<Rightarrow> u8 \<times> 'd"
  bus_in16 :: "u16 \<Rightarrow> 'd \<Rightarrow> u16 \<times> 'd"
  bus_in32 :: "u16 \<Rightarrow> 'd \<Rightarrow> u32 \<times> 'd"

type_synonym Port = u16

definition Port_new :: "u16 \<Rightarrow> Port" where
  "Port_new port = port"

definition Port_write :: "'d bus \<Rightarrow> Port \<Rightarrow> u8 \<Rightarrow> 'd \<Rightarrow> 'd" where
  "Port_write bus self value d = bus_out8 bus self value d"

definition Port_write_u16 :: "'d bus \<Rightarrow> Port \<Rightarrow> u16 \<Rightarrow> 'd \<Rightarrow> 'd" where
  "Port_write_u16 bus self value d = bus_out16 bus self value d"

definition Port_write_u32 :: "'d bus \<Rightarrow> Port \<Rightarrow> u32 \<Rightarrow> 'd \<Rightarrow> 'd" where
  "Port_write_u32 bus self value d = bus_out32 bus self value d"

definition Port_read :: "'d bus \<Rightarrow> Port \<Rightarrow> 'd \<Rightarrow> u8 \<times> 'd" where
  "Port_read bus self d = bus_in8 bus self d"

definition Port_read_u16 :: "'d bus \<Rightarrow> Port \<Rightarrow> 'd \<Rightarrow> u16 \<times> 'd" where
  "Port_read_u16 bus self d = bus_in16 bus self d"

definition Port_read_u32 :: "'d bus \<Rightarrow> Port \<Rightarrow> 'd \<Rightarrow> u32 \<times> 'd" where
  "Port_read_u32 bus self d = bus_in32 bus self d"

definition port_write :: "'d bus \<Rightarrow> u16 \<Rightarrow> u8 \<Rightarrow> 'd \<Rightarrow> 'd" where
  "port_write bus port value d = bus_out8 bus port value d"

definition port_read :: "'d bus \<Rightarrow> u16 \<Rightarrow> 'd \<Rightarrow> u8 \<times> 'd" where
  "port_read bus port d = bus_in8 bus port d"

lemmas port_simps [simp] = Port_new_def Port_write_def Port_write_u16_def Port_write_u32_def Port_read_def
  Port_read_u16_def Port_read_u32_def port_write_def port_read_def

end
