(* ===== verification/Ide.thy ===== *)
theory Ide
  imports Port
begin

text \<open>
  The ATA driver (\<^verbatim>\<open>src/ide.rs\<close>) in PIO mode: register access through the two channels,
  polling, the programming of a transfer, and reading and writing of sectors. The drives are behind the
  ports of a \<open>bus\<close>. A loop that waits for a status runs with fuel and is \<open>Hang\<close> when it runs out.
\<close>

section \<open>Registers and commands\<close>

record IDEChannelRegister =
  io_base :: u16
  ctrl :: u16
  bm_ide :: u16
  no_interrupt :: u8

datatype ATAChannel = Primary | Secondary

primrec channel_repr :: "ATAChannel \<Rightarrow> nat" where
  "channel_repr Primary = 0"
| "channel_repr Secondary = 1"

datatype IDEInterfaceType = Ata | Atapi

datatype DriveType = Master | Slave

primrec drive_repr :: "DriveType \<Rightarrow> u8" where
  "drive_repr Master = 0"
| "drive_repr Slave = 1"

record IDEDevice =
  channel :: ATAChannel
  drive :: DriveType
  interface_type :: IDEInterfaceType
  signature :: u16
  capabilities :: u16
  command_sets :: u32
  dev_size :: u32
  model :: "u8 list"
  enabled_48bit :: bool

datatype AtaRegister = Data | ErrorAndFeatures | SecCount0 | Lba0 | Lba1 | Lba2 | HddEvSel | CommandAndStatus
  | SecCount1 | Lba3 | Lba4 | Lba5 | ControlAndAltStatus | DevAddress

primrec reg_repr :: "AtaRegister \<Rightarrow> u8" where
  "reg_repr Data = 0x0"
| "reg_repr ErrorAndFeatures = 0x01"
| "reg_repr SecCount0 = 0x02"
| "reg_repr Lba0 = 0x03"
| "reg_repr Lba1 = 0x04"
| "reg_repr Lba2 = 0x05"
| "reg_repr HddEvSel = 0x06"
| "reg_repr CommandAndStatus = 0x07"
| "reg_repr SecCount1 = 0x08"
| "reg_repr Lba3 = 0x09"
| "reg_repr Lba4 = 0x0A"
| "reg_repr Lba5 = 0x0B"
| "reg_repr ControlAndAltStatus = 0x0C"
| "reg_repr DevAddress = 0x0D"

datatype AtaCommand = ReadPio | ReadPioExt | ReadDma | ReadDmaExt | WritePio | WritePioExt | WriteDma | WriteDmaExt
  | CacheFlush | CacheFlushExt | Packet | IdentifyPacket | Identify

primrec command_repr :: "AtaCommand \<Rightarrow> u8" where
  "command_repr ReadPio = 0x20"
| "command_repr ReadPioExt = 0x24"
| "command_repr ReadDma = 0xC8"
| "command_repr ReadDmaExt = 0x25"
| "command_repr WritePio = 0x30"
| "command_repr WritePioExt = 0x34"
| "command_repr WriteDma = 0xCA"
| "command_repr WriteDmaExt = 0x35"
| "command_repr CacheFlush = 0xE7"
| "command_repr CacheFlushExt = 0xEA"
| "command_repr Packet = 0xA0"
| "command_repr IdentifyPacket = 0xA1"
| "command_repr Identify = 0xEC"

definition STATUS_Busy :: u8 where "STATUS_Busy = 0x80"
definition STATUS_DriveWriteFault :: u8 where "STATUS_DriveWriteFault = 0x20"
definition STATUS_DataRequestReady :: u8 where "STATUS_DataRequestReady = 0x08"
definition STATUS_Error :: u8 where "STATUS_Error = 0x01"

datatype AtaError = NoError | DeviceFault | NoAddressMarkFound | NoMediaOrMediaError | CommandAborted
  | IdMarkNotFound | UncorrectableDataError | BadSectors | ReadsNothing | WriteProtected | OutOfRange

text \<open>The static \<open>CHANNELS\<close> and the hardware.\<close>

record 'd ide =
  CHANNELS :: "IDEChannelRegister list"
  dev :: 'd

definition chan :: "'d ide \<Rightarrow> ATAChannel \<Rightarrow> IDEChannelRegister" where
  "chan s c = CHANNELS s ! channel_repr c"

section \<open>Register access\<close>

function ide_write :: "'d bus \<Rightarrow> ATAChannel \<Rightarrow> AtaRegister \<Rightarrow> u8 \<Rightarrow> 'd ide \<Rightarrow> 'd ide" where
  "ide_write bus c reg data s =
     (let hob = 0x07 < reg_repr reg \<and> reg_repr reg < 0x0C;
          s = (if hob then ide_write bus c ControlAndAltStatus (0x80 OR no_interrupt (chan s c)) s else s);
          s = (if reg_repr reg < 0x08 then s\<lparr>dev := port_write bus (io_base (chan s c) + ucast (reg_repr reg) - 0x00) data (dev s)\<rparr>
               else if reg_repr reg < 0x0C then s\<lparr>dev := port_write bus (io_base (chan s c) + ucast (reg_repr reg) - 0x06) data (dev s)\<rparr>
               else if reg_repr reg < 0x0E then s\<lparr>dev := port_write bus (ctrl (chan s c) + ucast (reg_repr reg) - 0x0A) data (dev s)\<rparr>
               else if reg_repr reg < 0x16 then s\<lparr>dev := port_write bus (bm_ide (chan s c) + ucast (reg_repr reg) - 0x0E) data (dev s)\<rparr>
               else s)
      in if hob then ide_write bus c ControlAndAltStatus (no_interrupt (chan s c)) s else s)"
  by pat_completeness auto
termination
  by (relation "measure (\<lambda>(bus, c, reg, data, s). if 0x07 < reg_repr reg \<and> reg_repr reg < 0x0C then 1 else 0)") auto

declare ide_write.simps [simp del]

definition ide_read :: "'d bus \<Rightarrow> ATAChannel \<Rightarrow> AtaRegister \<Rightarrow> 'd ide \<Rightarrow> u8 \<times> 'd ide" where
  "ide_read bus c reg s =
     (let hob = 0x07 < reg_repr reg \<and> reg_repr reg < 0x0C;
          s = (if hob then ide_write bus c ControlAndAltStatus (0x80 OR no_interrupt (chan s c)) s else s);
          (result, d) =
            (if reg_repr reg < 0x08 then port_read bus (io_base (chan s c) + ucast (reg_repr reg) - 0x00) (dev s)
             else if reg_repr reg < 0x0C then port_read bus (io_base (chan s c) + ucast (reg_repr reg) - 0x06) (dev s)
             else if reg_repr reg < 0x0E then port_read bus (ctrl (chan s c) + ucast (reg_repr reg) - 0x0A) (dev s)
             else if reg_repr reg < 0x16 then port_read bus (bm_ide (chan s c) + ucast (reg_repr reg) - 0x0E) (dev s)
             else (0, dev s));
          s = s\<lparr>dev := d\<rparr>;
          s = (if hob then ide_write bus c ControlAndAltStatus (no_interrupt (chan s c)) s else s)
      in (result, s))"

text \<open>\<open>n\<close> reads of a 16-bit port.\<close>

fun read_words :: "'d bus \<Rightarrow> Port \<Rightarrow> nat \<Rightarrow> 'd \<Rightarrow> u16 list \<times> 'd" where
  "read_words bus port 0 d = ([], d)"
| "read_words bus port (Suc n) d =
     (let (w, d) = Port_read_u16 bus port d; (ws, d) = read_words bus port n d in (w # ws, d))"

text \<open>The buffer has 1024 elements: more words panic at the index.\<close>

definition ide_read_buffer ::
    "'d bus \<Rightarrow> ATAChannel \<Rightarrow> AtaRegister \<Rightarrow> u16 \<Rightarrow> u16 list \<Rightarrow> 'd ide \<Rightarrow> (u16 list \<times> 'd ide) outcome" where
  "ide_read_buffer bus c reg words buffer s =
     (let hob = 0x07 < reg_repr reg \<and> reg_repr reg < 0x0C;
          s = (if hob then ide_write bus c ControlAndAltStatus (0x80 OR no_interrupt (chan s c)) s else s);
          port =
            (if reg_repr reg < 0x08 then Some (Port_new (io_base (chan s c) + ucast (reg_repr reg) - 0x00))
             else if reg_repr reg < 0x0C then Some (Port_new (io_base (chan s c) + ucast (reg_repr reg) - 0x06))
             else if reg_repr reg < 0x0E then Some (Port_new (ctrl (chan s c) + ucast (reg_repr reg) - 0x0A))
             else None)
      in bindO (case port of
           None \<Rightarrow> if words = 0 then Done (buffer, s) else Panic []
         | Some p \<Rightarrow>
             if length buffer < unat words then Panic ''index out of bounds''
             else let (ws, d) = read_words bus p (unat words) (dev s)
                  in Done (ws @ drop (unat words) buffer, s\<lparr>dev := d\<rparr>)) (\<lambda>(buffer, s).
         Done (buffer, if hob then ide_write bus c ControlAndAltStatus (no_interrupt (chan s c)) s else s)))"

section \<open>Polling\<close>

text \<open>\<open>while status & Busy != 0 {}\<close>.\<close>

fun wait_not_busy :: "nat \<Rightarrow> 'd bus \<Rightarrow> ATAChannel \<Rightarrow> 'd ide \<Rightarrow> 'd ide outcome" where
  "wait_not_busy 0 bus c s = Hang"
| "wait_not_busy (Suc fuel) bus c s =
     (let (status, s) = ide_read bus c CommandAndStatus s
      in if status AND STATUS_Busy \<noteq> 0 then wait_not_busy fuel bus c s else Done s)"

definition ide_error :: "u8 \<Rightarrow> AtaError" where
  "ide_error err =
     (if err AND 0x01 \<noteq> 0 then NoAddressMarkFound
      else if err AND 0x02 \<noteq> 0 then NoMediaOrMediaError
      else if err AND 0x04 \<noteq> 0 then CommandAborted
      else if err AND 0x08 \<noteq> 0 then NoMediaOrMediaError
      else if err AND 0x10 \<noteq> 0 then IdMarkNotFound
      else if err AND 0x20 \<noteq> 0 then NoMediaOrMediaError
      else if err AND 0x40 \<noteq> 0 then UncorrectableDataError
      else if err AND 0x80 \<noteq> 0 then BadSectors
      else DeviceFault)"

definition ide_polling :: "nat \<Rightarrow> 'd bus \<Rightarrow> ATAChannel \<Rightarrow> bool \<Rightarrow> 'd ide \<Rightarrow> (AtaError \<times> 'd ide) outcome" where
  "ide_polling fuel bus c advanced_check s =
     (let s = ((\<lambda>s. snd (ide_read bus c ControlAndAltStatus s)) ^^ 4) s in
      bindO (wait_not_busy fuel bus c s) (\<lambda>s.
        if advanced_check then
          let (status, s) = ide_read bus c CommandAndStatus s
          in if status AND STATUS_Error \<noteq> 0 then
               let (err, s) = ide_read bus c ErrorAndFeatures s in Done (ide_error err, s)
             else if status AND STATUS_DriveWriteFault \<noteq> 0 then Done (DeviceFault, s)
             else Done (NoError, s)
        else Done (NoError, s)))"

section \<open>Transfers\<close>

datatype LbaMode = Lba48 | Lba28 | Chs

definition io_command :: "LbaMode \<Rightarrow> bool \<Rightarrow> bool \<Rightarrow> AtaCommand outcome" where
  "io_command lba_mode dma is_write =
     (case lba_mode of
        Chs \<Rightarrow> Panic ''not implemented''
      | Lba28 \<Rightarrow>
          Done (case (dma, is_write) of
            (False, False) \<Rightarrow> ReadPio | (False, True) \<Rightarrow> WritePio | (True, False) \<Rightarrow> ReadDma | (True, True) \<Rightarrow> WriteDma)
      | Lba48 \<Rightarrow>
          Done (case (dma, is_write) of
            (False, False) \<Rightarrow> ReadPioExt | (False, True) \<Rightarrow> WritePioExt | (True, False) \<Rightarrow> ReadDmaExt | (True, True) \<Rightarrow> WriteDmaExt))"

text \<open>The mode, the six address bytes and the head number for a sector.\<close>

definition io_address :: "u16 \<Rightarrow> u32 \<Rightarrow> (LbaMode \<times> u8 list \<times> u8) outcome" where
  "io_address caps lba =
     (if 0x10000000 \<le> lba then
        Done (Lba48, [ucast (drop_bit 0 (lba AND 0x000000FF)), ucast (drop_bit 8 (lba AND 0x0000FF00)),
          ucast (drop_bit 16 (lba AND 0x00FF0000)), ucast (drop_bit 24 (lba AND 0xFF000000)), 0, 0], 0)
      else if caps AND 0x200 \<noteq> 0 then
        Done (Lba28, [ucast (drop_bit 0 (lba AND 0x000000FF)), ucast (drop_bit 8 (lba AND 0x0000FF00)),
          ucast (drop_bit 16 (lba AND 0x00FF0000)), 0, 0, 0], ucast (drop_bit 24 (lba AND 0xF000000)))
      else Panic ''not implemented'')"

definition io_prepare :: "nat \<Rightarrow> 'd bus \<Rightarrow> IDEDevice \<Rightarrow> u32 \<Rightarrow> u8 \<Rightarrow> bool \<Rightarrow> bool \<Rightarrow> 'd ide \<Rightarrow> (LbaMode \<times> 'd ide) outcome" where
  "io_prepare fuel bus self lba numsects dma is_write s =
     (let c = channel self;
          s = s\<lparr>CHANNELS := (CHANNELS s)[channel_repr c := (chan s c)\<lparr>no_interrupt := 0x02\<rparr>]\<rparr>;
          s = ide_write bus c ControlAndAltStatus (no_interrupt (chan s c)) s in
      bindO (io_address (capabilities self) lba) (\<lambda>(lba_mode, lba_io, head).
      bindO (wait_not_busy fuel bus c s) (\<lambda>s.
      let slavebit = (case drive self of Master \<Rightarrow> 0 | Slave \<Rightarrow> 0x10) in
      bindO (case lba_mode of
          Chs \<Rightarrow> Panic ''not implemented''
        | Lba28 \<Rightarrow> Done (ide_write bus c HddEvSel (0xE0 OR slavebit OR head) s)
        | Lba48 \<Rightarrow>
            let s = ide_write bus c HddEvSel (0xE0 OR slavebit OR head) s;
                s = ide_write bus c SecCount1 0 s;
                s = ide_write bus c Lba3 (lba_io ! 3) s;
                s = ide_write bus c Lba4 (lba_io ! 4) s
            in Done (ide_write bus c Lba5 (lba_io ! 5) s)) (\<lambda>s.
      let s = ide_write bus c SecCount0 numsects s;
          s = ide_write bus c Lba0 (lba_io ! 0) s;
          s = ide_write bus c Lba1 (lba_io ! 1) s;
          s = ide_write bus c Lba2 (lba_io ! 2) s in
      bindO (io_command lba_mode dma is_write) (\<lambda>command.
      Done (lba_mode, ide_write bus c CommandAndStatus (command_repr command) s))))))"

fun write_words :: "'d bus \<Rightarrow> Port \<Rightarrow> u16 list \<Rightarrow> 'd \<Rightarrow> 'd" where
  "write_words bus port [] d = d"
| "write_words bus port (w # ws) d = write_words bus port ws (Port_write_u16 bus port w d)"

text \<open>The sector loop of \<open>write_impl\<close>; the result of the polling is dropped.\<close>

fun write_sectors :: "nat \<Rightarrow> 'd bus \<Rightarrow> ATAChannel \<Rightarrow> Port \<Rightarrow> u16 list list \<Rightarrow> 'd ide \<Rightarrow> 'd ide outcome" where
  "write_sectors fuel bus c port [] s = Done s"
| "write_sectors fuel bus c port (sector # data) s =
     bindO (ide_polling fuel bus c False s) (\<lambda>(_, s).
       write_sectors fuel bus c port data (s\<lparr>dev := write_words bus port sector (dev s)\<rparr>))"

definition write_impl ::
    "nat \<Rightarrow> 'd bus \<Rightarrow> IDEDevice \<Rightarrow> u32 \<Rightarrow> u16 list list \<Rightarrow> 'd ide \<Rightarrow> ((AtaError + unit) \<times> 'd ide) outcome" where
  "write_impl fuel bus self lba data s =
     bindO (io_prepare fuel bus self lba (of_nat (length data)) False True s) (\<lambda>(lba_mode, s).
     let port = Port_new (io_base (chan s (channel self))) in
     bindO (write_sectors fuel bus (channel self) port data s) (\<lambda>s.
     let s = (case lba_mode of
                Lba48 \<Rightarrow> ide_write bus (channel self) CommandAndStatus (command_repr CacheFlushExt) s
              | _ \<Rightarrow> ide_write bus (channel self) CommandAndStatus (command_repr CacheFlush) s) in
     bindO (ide_polling fuel bus (channel self) False s) (\<lambda>(err, s).
     Done (if err = NoError then Inr () else Inl err, s))))"

text \<open>The sector loop of \<open>read_impl\<close>, with the sectors read so far.\<close>

fun read_sectors :: "nat \<Rightarrow> 'd bus \<Rightarrow> ATAChannel \<Rightarrow> Port \<Rightarrow> nat \<Rightarrow> u16 list list \<Rightarrow> 'd ide
      \<Rightarrow> ((AtaError + u16 list list) \<times> 'd ide) outcome" where
  "read_sectors fuel bus c port 0 result s = Done (Inr result, s)"
| "read_sectors fuel bus c port (Suc n) result s =
     bindO (ide_polling fuel bus c True s) (\<lambda>(err, s).
       if err = NoError then
         let (buffer, d) = read_words bus port 256 (dev s)
         in read_sectors fuel bus c port n (result @ [buffer]) (s\<lparr>dev := d\<rparr>)
       else Done (Inl err, s))"

definition read_impl ::
    "nat \<Rightarrow> 'd bus \<Rightarrow> IDEDevice \<Rightarrow> u32 \<Rightarrow> u8 \<Rightarrow> 'd ide \<Rightarrow> ((AtaError + u16 list list) \<times> 'd ide) outcome" where
  "read_impl fuel bus self lba numsects s =
     bindO (io_prepare fuel bus self lba numsects False False s) (\<lambda>(_, s).
     let port = Port_new (io_base (chan s (channel self)))
     in read_sectors fuel bus (channel self) port (unat numsects) [] s)"

definition ide_device_read ::
    "nat \<Rightarrow> 'd bus \<Rightarrow> IDEDevice \<Rightarrow> u32 \<Rightarrow> u8 \<Rightarrow> 'd ide \<Rightarrow> ((AtaError + u16 list list) \<times> 'd ide) outcome" where
  "ide_device_read fuel bus self lba num s =
     (if dev_size self < lba + ucast num then Done (Inl OutOfRange, s)
      else read_impl fuel bus self lba num s)"

definition ide_device_write ::
    "nat \<Rightarrow> 'd bus \<Rightarrow> IDEDevice \<Rightarrow> u32 \<Rightarrow> u16 list list \<Rightarrow> 'd ide \<Rightarrow> ((AtaError + unit) \<times> 'd ide) outcome" where
  "ide_device_write fuel bus self lba data s =
     (if dev_size self < lba + of_nat (length data) then Done (Inl OutOfRange, s)
      else write_impl fuel bus self lba data s)"

section \<open>Initialisation\<close>

definition construct_u32 :: "u16 \<Rightarrow> u16 \<Rightarrow> u32" where
  "construct_u32 input0 input1 = push_bit 16 (ucast input1) OR ucast input0"

datatype IdentifyBufferOffset = DeviceType | Cylinders | Heads | Sectors | Serial | Model | Capabilities | Fieldvalid
  | MaxLba | Commandsets | MaxLbaExt

primrec offset_repr :: "IdentifyBufferOffset \<Rightarrow> nat" where
  "offset_repr DeviceType = 0"
| "offset_repr Cylinders = 1"
| "offset_repr Heads = 3"
| "offset_repr Sectors = 6"
| "offset_repr Serial = 10"
| "offset_repr Model = 27"
| "offset_repr Capabilities = 49"
| "offset_repr Fieldvalid = 53"
| "offset_repr MaxLba = 60"
| "offset_repr Commandsets = 82"
| "offset_repr MaxLbaExt = 100"

definition get_u16_from_buffer :: "u16 list \<Rightarrow> IdentifyBufferOffset \<Rightarrow> u16" where
  "get_u16_from_buffer buffer off = buffer ! offset_repr off"

definition get_u32_from_buffer :: "u16 list \<Rightarrow> IdentifyBufferOffset \<Rightarrow> u32" where
  "get_u32_from_buffer buffer off = construct_u32 (buffer ! offset_repr off) (buffer ! (offset_repr off + 1))"

definition to_be_bytes :: "u16 \<Rightarrow> u8 list" where
  "to_be_bytes w = [ucast (drop_bit 8 w), ucast w]"

definition model_of_buffer :: "u16 list \<Rightarrow> u8 list" where
  "model_of_buffer buffer =
     concat (map (\<lambda>j. to_be_bytes (buffer ! (offset_repr Model + j))) [0..<20]) @ [0]"

definition identify_device :: "ATAChannel \<Rightarrow> DriveType \<Rightarrow> u16 list \<Rightarrow> IDEDevice" where
  "identify_device c dr buffer =
     (let sets = get_u32_from_buffer buffer Commandsets;
          ext = sets AND push_bit 26 1 \<noteq> 0
      in \<lparr>channel = c, drive = dr, interface_type = Ata,
          signature = get_u16_from_buffer buffer DeviceType,
          capabilities = get_u16_from_buffer buffer Capabilities,
          command_sets = sets,
          dev_size = (if ext then get_u32_from_buffer buffer MaxLbaExt else get_u32_from_buffer buffer MaxLba),
          model = model_of_buffer buffer,
          enabled_48bit = ext\<rparr>)"

text \<open>The loop that waits for an answer to \<open>Identify\<close>: \<open>True\<close> if the device reports an error.\<close>

fun wait_identify :: "nat \<Rightarrow> 'd bus \<Rightarrow> ATAChannel \<Rightarrow> 'd ide \<Rightarrow> (bool \<times> 'd ide) outcome" where
  "wait_identify 0 bus c s = Hang"
| "wait_identify (Suc fuel) bus c s =
     (let (status, s) = ide_read bus c CommandAndStatus s
      in if status AND STATUS_Error \<noteq> 0 then Done (True, s)
         else if status AND STATUS_Busy = 0 \<and> status AND STATUS_DataRequestReady \<noteq> 0 then Done (False, s)
         else wait_identify fuel bus c s)"

text \<open>One round of the loop over the drives; the pauses between the port accesses have no effect here.\<close>

definition probe_drive :: "nat \<Rightarrow> 'd bus \<Rightarrow> ATAChannel \<Rightarrow> DriveType \<Rightarrow> 'd ide \<Rightarrow> (IDEDevice option \<times> 'd ide) outcome" where
  "probe_drive fuel bus c dr s =
     (let s = ide_write bus c HddEvSel (0xA0 OR push_bit 4 (drive_repr dr)) s;
          s = ide_write bus c CommandAndStatus (command_repr Identify) s;
          (status, s) = ide_read bus c CommandAndStatus s
      in if status = 0 then Done (None, s)
         else bindO (wait_identify fuel bus c s) (\<lambda>(err, s).
           if err then Done (None, s)
           else bindO (ide_read_buffer bus c Data 256 (replicate 1024 0) s) (\<lambda>(ide_buf, s).
             Done (Some (identify_device c dr ide_buf), s))))"

fun probe_drives :: "nat \<Rightarrow> 'd bus \<Rightarrow> (ATAChannel \<times> DriveType) list \<Rightarrow> 'd ide \<Rightarrow> (IDEDevice list \<times> 'd ide) outcome" where
  "probe_drives fuel bus [] s = Done ([], s)"
| "probe_drives fuel bus ((c, dr) # rest) s =
     bindO (probe_drive fuel bus c dr s) (\<lambda>(found, s).
     bindO (probe_drives fuel bus rest s) (\<lambda>(drives, s).
     Done ((case found of None \<Rightarrow> [] | Some d \<Rightarrow> [d]) @ drives, s)))"

text \<open>The message for each drive decodes its model and panics if it is not UTF-8.\<close>

definition ide_initialize :: "nat \<Rightarrow> 'd bus \<Rightarrow> 'd ide \<Rightarrow> (IDEDevice list \<times> 'd ide) outcome" where
  "ide_initialize fuel bus s =
     (let bar0 = 0x1F0; bar1 = 0x3F6; bar2 = 0x170; bar3 = 0x376; bar4 = 0x0 :: u32;
          p = (chan s Primary)\<lparr>io_base := ucast (bar0 AND 0xFFFFFFFC :: u32), ctrl := ucast (bar1 AND 0xFFFFFFFC :: u32),
                bm_ide := ucast ((bar4 AND 0xFFFFFFFC) + 0)\<rparr>;
          q = (chan s Secondary)\<lparr>io_base := ucast (bar2 AND 0xFFFFFFFC :: u32), ctrl := ucast (bar3 AND 0xFFFFFFFC :: u32),
                bm_ide := ucast ((bar4 AND 0xFFFFFFFC) + 8)\<rparr>;
          s = s\<lparr>CHANNELS := (CHANNELS s)[channel_repr Primary := p, channel_repr Secondary := q]\<rparr>;
          s = ide_write bus Primary ControlAndAltStatus 2 s;
          s = ide_write bus Secondary ControlAndAltStatus 2 s
      in bindO (probe_drives fuel bus [(Primary, Master), (Primary, Slave), (Secondary, Master), (Secondary, Slave)] s)
           (\<lambda>(drives, s).
             if \<forall>d\<in>set drives. utf8_ok (map unat (model d)) then Done (drives, s) else Panic []))"

section \<open>Register access, port by port\<close>

lemma CHANNELS_dev [simp]: "CHANNELS (s\<lparr>dev := d\<rparr>) = CHANNELS s" "chan (s\<lparr>dev := d\<rparr>) c = chan s c"
  by (simp_all add: chan_def)

lemma ide_write_plain:
  assumes "\<not> (0x07 < reg_repr reg \<and> reg_repr reg < 0x0C)"
  shows "ide_write bus c reg data s =
    (if reg_repr reg < 0x08 then s\<lparr>dev := port_write bus (io_base (chan s c) + ucast (reg_repr reg) - 0x00) data (dev s)\<rparr>
     else if reg_repr reg < 0x0C then s\<lparr>dev := port_write bus (io_base (chan s c) + ucast (reg_repr reg) - 0x06) data (dev s)\<rparr>
     else if reg_repr reg < 0x0E then s\<lparr>dev := port_write bus (ctrl (chan s c) + ucast (reg_repr reg) - 0x0A) data (dev s)\<rparr>
     else if reg_repr reg < 0x16 then s\<lparr>dev := port_write bus (bm_ide (chan s c) + ucast (reg_repr reg) - 0x0E) data (dev s)\<rparr>
     else s)"
  unfolding ide_write.simps [of bus c reg data s] Let_def using assms by (simp only: if_False)

lemma reg_low [simp]:
  "reg_repr reg < 8 \<Longrightarrow>
     ide_write bus c reg data s = s\<lparr>dev := bus_out8 bus (io_base (chan s c) + ucast (reg_repr reg)) data (dev s)\<rparr>"
  using ide_write_plain [of reg bus c data s] by (cases reg) simp_all

lemma reg_control [simp]:
  "ide_write bus c ControlAndAltStatus data s = s\<lparr>dev := bus_out8 bus (2 + ctrl (chan s c)) data (dev s)\<rparr>"
  using ide_write_plain [of ControlAndAltStatus bus c data s] by simp

lemma reg_hob:
  assumes "reg \<in> {SecCount1, Lba3, Lba4, Lba5}"
  shows "ide_write bus c reg data s =
    (let ct = 2 + ctrl (chan s c); p = io_base (chan s c) + ucast (reg_repr reg) - 6; n = no_interrupt (chan s c)
     in s\<lparr>dev := bus_out8 bus ct n (bus_out8 bus p data (bus_out8 bus ct (0x80 OR n) (dev s)))\<rparr>)"
proof -
  have r: "0x07 < reg_repr reg \<and> reg_repr reg < 0x0C" "\<not> reg_repr reg < 0x08" using assms by auto
  show ?thesis
    unfolding ide_write.simps [of bus c reg data s] Let_def using r by simp
qed

lemma ide_read_low [simp]:
  "reg_repr reg < 8 \<Longrightarrow> ide_read bus c reg s =
     (fst (bus_in8 bus (io_base (chan s c) + ucast (reg_repr reg)) (dev s)),
      s\<lparr>dev := snd (bus_in8 bus (io_base (chan s c) + ucast (reg_repr reg)) (dev s))\<rparr>)"
  by (cases reg) (simp_all add: ide_read_def Let_def split_def)

lemma ide_read_control [simp]:
  "ide_read bus c ControlAndAltStatus s =
     (fst (bus_in8 bus (2 + ctrl (chan s c)) (dev s)), s\<lparr>dev := snd (bus_in8 bus (2 + ctrl (chan s c)) (dev s))\<rparr>)"
  by (simp add: ide_read_def Let_def split_def)

end
