(* ===== verification/Block_Device.thy ===== *)
theory Block_Device
  imports Ferr_Prelude
begin

text \<open>
  What a block device promises its clients, the trait \<^verbatim>\<open>BlockDevice\<close> of \<^verbatim>\<open>src/ide.rs\<close>. A state of the
  machine shows the contents of the disk, a function from sector numbers to sectors of 256 words; reading
  returns the contents, and writing changes the addressed sectors.
\<close>

definition sectors :: "(nat \<Rightarrow> u16 list) \<Rightarrow> nat \<Rightarrow> nat \<Rightarrow> u16 list list" where
  "sectors d lba n = map d [lba..<lba + n]"

text \<open>The contents of a disk after sectors have been written from \<open>lba\<close> on.\<close>

definition write_at :: "(nat \<Rightarrow> u16 list) \<Rightarrow> nat \<Rightarrow> u16 list list \<Rightarrow> nat \<Rightarrow> u16 list" where
  "write_at d lba data n = (if lba \<le> n \<and> n < lba + length data then data ! (n - lba) else d n)"

lemma write_at_Nil [simp]: "write_at d lba [] = d"
  by (rule ext) (auto simp: write_at_def)

lemma write_at_Cons: "write_at (d(lba := x)) (Suc lba) xs = write_at d lba (x # xs)"
proof (rule ext)
  fix n
  consider "n < lba" | "n = lba" | k where "n = Suc lba + k"
    by (metis less_linear less_iff_Suc_add add_Suc)
  then show "write_at (d(lba := x)) (Suc lba) xs n = write_at d lba (x # xs) n"
    by cases (simp_all add: write_at_def)
qed

lemma sectors_write_at: "sectors (write_at d lba data) lba (length data) = data"
proof (rule nth_equalityI)
  fix i assume "i < length (sectors (write_at d lba data) lba (length data))"
  then show "sectors (write_at d lba data) lba (length data) ! i = data ! i" by (simp add: sectors_def write_at_def)
qed (simp add: sectors_def)

lemma sectors_write_other:
  "lba + n \<le> l \<or> l + length data \<le> lba \<Longrightarrow> sectors (write_at d l data) lba n = sectors d lba n"
  by (auto simp: sectors_def write_at_def)

locale block_device =
  fixes read_blocks :: "u32 \<Rightarrow> u8 \<Rightarrow> 's \<Rightarrow> (('e + u16 list list) \<times> 's) outcome"
    and write_blocks :: "u32 \<Rightarrow> u16 list list \<Rightarrow> 's \<Rightarrow> (('e + unit) \<times> 's) outcome"
    and blocks :: nat
    and content :: "'s \<Rightarrow> (nat \<Rightarrow> u16 list) \<Rightarrow> bool"
  assumes content_length: "content s d \<Longrightarrow> length (d n) = 256"
    and read_law: "content s d \<Longrightarrow> num \<noteq> 0 \<Longrightarrow> unat lba + unat num \<le> blocks \<Longrightarrow>
      \<exists>s'. read_blocks lba num s = Done (Inr (sectors d (unat lba) (unat num)), s') \<and> content s' d"
    and write_law: "content s d \<Longrightarrow> data \<noteq> [] \<Longrightarrow> length data < 256 \<Longrightarrow> \<forall>x\<in>set data. length x = 256 \<Longrightarrow>
      unat lba + length data \<le> blocks \<Longrightarrow>
      \<exists>s'. write_blocks lba data s = Done (Inr (), s') \<and> content s' (write_at d (unat lba) data)"
begin

lemma write_read:
  assumes "content s d" "data \<noteq> []" "length data < 256" "\<forall>x\<in>set data. length x = 256" "unat lba + length data \<le> blocks"
    and "num \<noteq> 0" "unat lba' + unat num \<le> blocks"
  shows "\<exists>s1 s2 result. write_blocks lba data s = Done (Inr (), s1) \<and> read_blocks lba' num s1 = Done (Inr result, s2) \<and>
    (lba' = lba \<and> unat num = length data \<longrightarrow> result = data) \<and>
    (unat lba' + unat num \<le> unat lba \<or> unat lba + length data \<le> unat lba' \<longrightarrow> result = sectors d (unat lba') (unat num))"
proof -
  obtain s1 where w: "write_blocks lba data s = Done (Inr (), s1)" and c: "content s1 (write_at d (unat lba) data)"
    using write_law [OF assms(1-5)] by blast
  from read_law [OF c assms(6,7)] obtain s2
    where "read_blocks lba' num s1 = Done (Inr (sectors (write_at d (unat lba) data) (unat lba') (unat num)), s2)" by blast
  with w show ?thesis by (auto simp: sectors_write_at sectors_write_other)
qed

end

end
