(* ===== verification/Ata.thy ===== *)
theory Ata
  imports Ide Block_Device
begin

text \<open>
  What the driver achieves on an ATA drive. The drive is hardware: its documented behaviour in PIO
  transfers is the state machine \<open>ata\<close> below, and the hypothesis \<open>ata_bus\<close> says that the ports of the
  bus show such a drive. The drive is busy for a while after every command and every sector; while it is,
  it ignores its registers and transfers no data, so that only a driver that polls gets its data.
\<close>

section \<open>A drive in PIO mode\<close>

text \<open>The address and count registers are two deep, for 48-bit commands: value and previous value.\<close>

record ata =
  disk :: "nat \<Rightarrow> u16 list"
  r_count :: "u8 \<times> u8"
  r_lo :: "u8 \<times> u8"
  r_mid :: "u8 \<times> u8"
  r_hi :: "u8 \<times> u8"
  r_select :: u8
  busy :: nat
  latency :: nat
  out_words :: "u16 list"
  wr_sector :: nat
  wr_left :: nat
  in_words :: "u16 list"

definition lba28 :: "ata \<Rightarrow> nat" where
  "lba28 a = unat (ucast (fst (r_lo a)) OR push_bit 8 (ucast (fst (r_mid a))) OR push_bit 16 (ucast (fst (r_hi a)))
     OR push_bit 24 (ucast (take_bit 4 (r_select a))) :: u64)"

definition lba48 :: "ata \<Rightarrow> nat" where
  "lba48 a = unat (ucast (fst (r_lo a)) OR push_bit 8 (ucast (fst (r_mid a))) OR push_bit 16 (ucast (fst (r_hi a)))
     OR push_bit 24 (ucast (snd (r_lo a))) OR push_bit 32 (ucast (snd (r_mid a))) OR push_bit 40 (ucast (snd (r_hi a))) :: u64)"

definition count28 :: "ata \<Rightarrow> nat" where
  "count28 a = (if fst (r_count a) = 0 then 256 else unat (fst (r_count a)))"

definition count48 :: "ata \<Rightarrow> nat" where
  "count48 a = (let n = unat (fst (r_count a)) + 256 * unat (snd (r_count a)) in if n = 0 then 65536 else n)"

definition ata_read :: "nat \<Rightarrow> nat \<Rightarrow> ata \<Rightarrow> ata" where
  "ata_read lba n a = a\<lparr>out_words := concat (sectors (disk a) lba n), wr_left := 0, busy := latency a\<rparr>"

definition ata_write :: "nat \<Rightarrow> nat \<Rightarrow> ata \<Rightarrow> ata" where
  "ata_write lba n a = a\<lparr>wr_sector := lba, wr_left := n, in_words := [], out_words := [], busy := latency a\<rparr>"

definition ata_command :: "u8 \<Rightarrow> ata \<Rightarrow> ata" where
  "ata_command v a =
     (if v = 0x20 then ata_read (lba28 a) (count28 a) a
      else if v = 0x24 then ata_read (lba48 a) (count48 a) a
      else if v = 0x30 then ata_write (lba28 a) (count28 a) a
      else if v = 0x34 then ata_write (lba48 a) (count48 a) a
      else a\<lparr>busy := latency a\<rparr>)"

definition ata_out8 :: "u16 \<Rightarrow> u8 \<Rightarrow> ata \<Rightarrow> ata" where
  "ata_out8 r v a =
     (if busy a > 0 then a
      else if r = 2 then a\<lparr>r_count := (v, fst (r_count a))\<rparr>
      else if r = 3 then a\<lparr>r_lo := (v, fst (r_lo a))\<rparr>
      else if r = 4 then a\<lparr>r_mid := (v, fst (r_mid a))\<rparr>
      else if r = 5 then a\<lparr>r_hi := (v, fst (r_hi a))\<rparr>
      else if r = 6 then a\<lparr>r_select := v\<rparr>
      else if r = 7 then ata_command v a
      else a)"

definition ata_status :: "ata \<Rightarrow> u8" where
  "ata_status a = (if busy a > 0 then 0x80 else if out_words a \<noteq> [] \<or> wr_left a > 0 then 0x58 else 0x50)"

text \<open>The state after a register was read: reading the status takes time.\<close>

definition ata_in8 :: "u16 \<Rightarrow> ata \<Rightarrow> ata" where
  "ata_in8 r a = (if r = 7 then a\<lparr>busy := busy a - 1\<rparr> else a)"

definition ata_in16 :: "u16 \<Rightarrow> ata \<Rightarrow> u16 \<times> ata" where
  "ata_in16 r a =
     (if r = 0 \<and> busy a = 0 \<and> out_words a \<noteq> []
      then let ws = tl (out_words a)
           in (hd (out_words a), a\<lparr>out_words := ws, busy := (if ws \<noteq> [] \<and> length ws mod 256 = 0 then latency a else 0)\<rparr>)
      else (0, a))"

definition ata_out16 :: "u16 \<Rightarrow> u16 \<Rightarrow> ata \<Rightarrow> ata" where
  "ata_out16 r w a =
     (if r = 0 \<and> busy a = 0 \<and> wr_left a > 0
      then if length (in_words a) = 255
           then a\<lparr>disk := (disk a)(wr_sector a := in_words a @ [w]), wr_sector := wr_sector a + 1, wr_left := wr_left a - 1,
                  in_words := [], busy := latency a\<rparr>
           else a\<lparr>in_words := in_words a @ [w]\<rparr>
      else a)"

text \<open>The bus shows such a drive at the command block \<open>io\<close>; the control block \<open>ct\<close> is elsewhere.\<close>

definition ata_bus :: "'d bus \<Rightarrow> u16 \<Rightarrow> u16 \<Rightarrow> ('d \<Rightarrow> ata) \<Rightarrow> bool" where
  "ata_bus bus io ct view \<longleftrightarrow>
     8 \<le> 2 + ct - io \<and>
     (\<forall>p v d. view (bus_out8 bus p v d) = ata_out8 (p - io) v (view d)) \<and>
     (\<forall>d. fst (bus_in8 bus (io + 7) d) = ata_status (view d)) \<and>
     (\<forall>p d. view (snd (bus_in8 bus p d)) = ata_in8 (p - io) (view d)) \<and>
     (\<forall>p d. fst (bus_in16 bus p d) = fst (ata_in16 (p - io) (view d))) \<and>
     (\<forall>p d. view (snd (bus_in16 bus p d)) = snd (ata_in16 (p - io) (view d))) \<and>
     (\<forall>p w d. view (bus_out16 bus p w d) = ata_out16 (p - io) w (view d))"

text \<open>A drive between commands.\<close>

definition ata_idle :: "ata \<Rightarrow> bool" where
  "ata_idle a \<longleftrightarrow> out_words a = [] \<and> wr_left a = 0 \<and> (\<forall>n. length (disk a n) = 256)"

lemma ata_out8_control: "8 \<le> r \<Longrightarrow> ata_out8 r v a = a"
  by (auto simp: ata_out8_def)

lemma ata_in8_control: "8 \<le> r \<Longrightarrow> ata_in8 r a = a"
  by (auto simp: ata_in8_def)

lemma ata_status_bits [simp]:
  "ata_status a AND STATUS_Busy \<noteq> 0 \<longleftrightarrow> busy a > 0"
  "busy a = 0 \<Longrightarrow> ata_status a AND STATUS_Error = 0"
  "busy a = 0 \<Longrightarrow> ata_status a AND STATUS_DriveWriteFault = 0"
  by (auto simp: ata_status_def STATUS_Busy_def STATUS_Error_def STATUS_DriveWriteFault_def)

section \<open>The driver's view\<close>

text \<open>The driver's state \<open>s\<close> shows the drive \<open>a\<close> on channel \<open>c\<close>.\<close>

definition has_drive :: "('d \<Rightarrow> ata) \<Rightarrow> u16 \<Rightarrow> u16 \<Rightarrow> ATAChannel \<Rightarrow> ata \<Rightarrow> 'd ide \<Rightarrow> bool" where
  "has_drive view io ct c a s \<longleftrightarrow>
     length (CHANNELS s) = 2 \<and> io_base (chan s c) = io \<and> ctrl (chan s c) = ct \<and> view (dev s) = a"

lemma drive_write_low:
  assumes "ata_bus bus io ct view" "has_drive view io ct c a s" "reg_repr reg < 8"
  shows "has_drive view io ct c (ata_out8 (ucast (reg_repr reg)) v a) (ide_write bus c reg v s)"
  using assms by (simp add: has_drive_def ata_bus_def)

lemma drive_write_control:
  assumes "ata_bus bus io ct view" "has_drive view io ct c a s"
  shows "has_drive view io ct c a (ide_write bus c ControlAndAltStatus v s)"
  using assms ata_out8_control [of "2 + ct - io" v a] by (simp add: has_drive_def ata_bus_def)

lemma drive_write_hob:
  assumes bus: "ata_bus bus io ct view" and s: "has_drive view io ct c a s" and reg: "reg \<in> {SecCount1, Lba3, Lba4, Lba5}"
  shows "has_drive view io ct c (ata_out8 (ucast (reg_repr reg) - 6) v a) (ide_write bus c reg v s)"
  using assms ata_out8_control [of "2 + ct - io"]
  by (simp add: has_drive_def ata_bus_def reg_hob [OF reg] Let_def)

lemma drive_read_status:
  assumes "ata_bus bus io ct view" "has_drive view io ct c a s"
  shows "fst (ide_read bus c CommandAndStatus s) = ata_status a"
    and "has_drive view io ct c (a\<lparr>busy := busy a - 1\<rparr>) (snd (ide_read bus c CommandAndStatus s))"
  using assms by (simp_all add: has_drive_def ata_bus_def ata_in8_def)

lemma drive_read_control:
  assumes "ata_bus bus io ct view" "has_drive view io ct c a s"
  shows "has_drive view io ct c a (snd (ide_read bus c ControlAndAltStatus s))"
  using assms ata_in8_control [of "2 + ct - io" a] by (simp add: has_drive_def ata_bus_def)

lemma wait_not_busy_drive:
  assumes bus: "ata_bus bus io ct view" and "has_drive view io ct c a s" "busy a < fuel"
  shows "\<exists>s'. wait_not_busy fuel bus c s = Done s' \<and> has_drive view io ct c (a\<lparr>busy := 0\<rparr>) s'"
  using assms(2,3)
proof (induction fuel arbitrary: a s)
  case (Suc fuel)
  note st = drive_read_status [OF bus Suc.prems(1)]
  show ?case
  proof (cases "busy a > 0")
    case True
    then have "busy (a\<lparr>busy := busy a - 1\<rparr>) < fuel" using Suc.prems(2) by simp
    from Suc.IH [OF st(2) this] True st(1) show ?thesis
      by (simp add: split_def del: ide_read_low)
  next
    case False
    then show ?thesis using st by (simp add: split_def del: ide_read_low)
  qed
qed simp

lemma funpow_4: "(f ^^ 4) x = f (f (f (f x)))"
  by (simp add: eval_nat_numeral)

lemma polling_drive:
  assumes bus: "ata_bus bus io ct view" and s: "has_drive view io ct c a s" and fuel: "busy a < fuel"
  shows "\<exists>s'. ide_polling fuel bus c adv s = Done (NoError, s') \<and> has_drive view io ct c (a\<lparr>busy := 0\<rparr>) s'"
proof -
  let ?r = "\<lambda>s. snd (ide_read bus c ControlAndAltStatus s)"
  have "has_drive view io ct c a ((?r ^^ 4) s)"
    unfolding funpow_4 by (intro drive_read_control [OF bus] s)
  from wait_not_busy_drive [OF bus this fuel] obtain s1
    where s1: "wait_not_busy fuel bus c ((?r ^^ 4) s) = Done s1" "has_drive view io ct c (a\<lparr>busy := 0\<rparr>) s1" by blast
  note st = drive_read_status [OF bus s1(2)]
  show ?thesis
    using s1 st ata_status_bits(2,3) [of "a\<lparr>busy := 0\<rparr>"]
    by (cases adv) (simp_all add: ide_polling_def split_def del: ide_read_low ide_read_control)
qed

section \<open>Addressing\<close>

lemma byte_masks:
  "bit (0xFF00 :: int) i \<longleftrightarrow> 8 \<le> i \<and> i < 16" "bit (0xFF0000 :: int) i \<longleftrightarrow> 16 \<le> i \<and> i < 24"
  "bit (0xFF000000 :: int) i \<longleftrightarrow> 24 \<le> i \<and> i < 32" "bit (0xF000000 :: int) i \<longleftrightarrow> 24 \<le> i \<and> i < 28"
  "bit (0xFF :: int) i \<longleftrightarrow> i < 8" "bit (0xE0 :: int) i \<longleftrightarrow> 5 \<le> i \<and> i < 8" "bit (0x10 :: int) i \<longleftrightarrow> i = 4"
proof -
  have "(0xFF00 :: int) = push_bit 8 (mask 8)" "(0xFF0000 :: int) = push_bit 16 (mask 8)"
    "(0xFF000000 :: int) = push_bit 24 (mask 8)" "(0xF000000 :: int) = push_bit 24 (mask 4)" "(0xFF :: int) = mask 8"
    "(0xE0 :: int) = push_bit 5 (mask 3)" "(0x10 :: int) = push_bit 4 (mask 1)"
    by (simp_all add: mask_eq_exp_minus_1)
  then show "bit (0xFF00 :: int) i \<longleftrightarrow> 8 \<le> i \<and> i < 16" "bit (0xFF0000 :: int) i \<longleftrightarrow> 16 \<le> i \<and> i < 24"
    "bit (0xFF000000 :: int) i \<longleftrightarrow> 24 \<le> i \<and> i < 32" "bit (0xF000000 :: int) i \<longleftrightarrow> 24 \<le> i \<and> i < 28"
    "bit (0xFF :: int) i \<longleftrightarrow> i < 8" "bit (0xE0 :: int) i \<longleftrightarrow> 5 \<le> i \<and> i < 8" "bit (0x10 :: int) i \<longleftrightarrow> i = 4"
    by (simp_all only: bit_push_bit_iff bit_mask_iff) auto
qed

lemma bit_15: "bit (15 :: int) i \<longleftrightarrow> i < 4"
  using bit_mask_iff [of 4 i, where 'a = int] by (simp add: mask_eq_exp_minus_1)

lemma unat_ucast_u32: "unat (ucast (w :: u32) :: u64) = unat w"
proof -
  have "unat w < 2 ^ 32" using unsigned_less [of w] by simp
  then show ?thesis by (simp add: unsigned_ucast_eq take_bit_nat_eq_self)
qed

lemma address_bytes:
  fixes lba :: u32
  shows "ucast (lba AND 0xFF) = (ucast lba :: u8)"
    and "ucast (drop_bit 8 (lba AND 0xFF00)) = (ucast (drop_bit 8 lba) :: u8)"
    and "ucast (drop_bit 16 (lba AND 0xFF0000)) = (ucast (drop_bit 16 lba) :: u8)"
    and "ucast (drop_bit 24 (lba AND 0xFF000000)) = (ucast (drop_bit 24 lba) :: u8)"
  by (rule bit_word_eqI; auto simp: bit_simps byte_masks)+

lemma head_bits:
  fixes lba :: u32 and slave :: u8
  assumes "lba < 0x10000000" "slave \<in> {0, 0x10}"
  shows "take_bit 4 (0xE0 OR slave OR ucast (drop_bit 24 (lba AND 0xF000000))) = (ucast (drop_bit 24 lba) :: u8)"
proof -
  have "take_bit 28 lba = lba"
    using assms(1) by (simp add: word_unat_eq_iff unsigned_take_bit_eq take_bit_nat_eq_self word_less_nat_alt)
  then have small: "bit lba i \<Longrightarrow> i < 28" for i by (metis bit_take_bit_iff)
  have slave: "\<not> bit slave i" if "i < 4" for i
    using assms(2) that by (auto simp: byte_masks)
  show ?thesis
  proof (rule bit_word_eqI)
    fix i :: nat assume "i < LENGTH(8)"
    then show "bit (take_bit 4 (0xE0 OR slave OR ucast (drop_bit 24 (lba AND 0xF000000)))) i = bit (ucast (drop_bit 24 lba) :: u8) i"
      using small [of "24 + i"] slave [of i] by (cases "i < 4") (auto simp: bit_simps byte_masks bit_15)
  qed
qed

lemma join_bytes:
  fixes lba :: u32
  shows "unat (ucast (ucast lba :: u8) OR push_bit 8 (ucast (ucast (drop_bit 8 lba) :: u8))
      OR push_bit 16 (ucast (ucast (drop_bit 16 lba) :: u8)) OR push_bit 24 (ucast (ucast (drop_bit 24 lba) :: u8)) :: u64) = unat lba"
    (is "unat ?w = _")
proof -
  have "?w = ucast lba"
  proof (rule bit_word_eqI)
    fix i :: nat assume "i < LENGTH(64)"
    then consider "i < 8" | "8 \<le> i" "i < 16" | "16 \<le> i" "i < 24" | "24 \<le> i" "i < 32" | "32 \<le> i" "i < 64"
      by fastforce
    then show "bit ?w i = bit (ucast lba :: u64) i"
      by cases (use bit_imp_le_length [of lba i] in \<open>auto simp: bit_simps\<close>)
  qed
  then show ?thesis by (simp add: unat_ucast_u32)
qed

text \<open>The drive can be addressed: by 48 bits, or by 28 if it says so.\<close>

definition addressable :: "IDEDevice \<Rightarrow> u32 \<Rightarrow> bool" where
  "addressable d lba \<longleftrightarrow> 0x10000000 \<le> lba \<or> capabilities d AND 0x200 \<noteq> 0"

text \<open>A transfer of \<open>n\<close> sectors from \<open>lba\<close> on has been started.\<close>

definition transfer_started :: "bool \<Rightarrow> nat \<Rightarrow> nat \<Rightarrow> ata \<Rightarrow> ata \<Rightarrow> bool" where
  "transfer_started is_write lba n a b \<longleftrightarrow>
     disk b = disk a \<and> latency b = latency a \<and> busy b = latency a \<and>
     (if is_write then wr_sector b = lba \<and> wr_left b = n \<and> in_words b = [] \<and> out_words b = []
      else out_words b = concat (sectors (disk a) lba n) \<and> wr_left b = 0)"

lemma has_drive_no_interrupt:
  assumes "has_drive view io ct c a s"
  shows "has_drive view io ct c a (s\<lparr>CHANNELS := (CHANNELS s)[channel_repr c := (chan s c)\<lparr>no_interrupt := v\<rparr>]\<rparr>)"
proof -
  have "channel_repr c < 2" by (cases c) simp_all
  then show ?thesis using assms by (simp add: has_drive_def chan_def)
qed

text \<open>A sequence of register writes.\<close>

definition reg_port :: "AtaRegister \<Rightarrow> u16" where
  "reg_port reg = (if reg_repr reg < 8 then ucast (reg_repr reg) else ucast (reg_repr reg) - 6)"

lemma drive_writes:
  assumes bus: "ata_bus bus io ct view" and "has_drive view io ct c a s"
    and "\<forall>(reg, v)\<in>set ws. reg_repr reg < 0xC"
  shows "has_drive view io ct c (fold (\<lambda>(reg, v). ata_out8 (reg_port reg) v) ws a) (fold (\<lambda>(reg, v). ide_write bus c reg v) ws s)"
  using assms(2,3)
proof (induction ws arbitrary: a s)
  case (Cons w ws)
  obtain reg v where w: "w = (reg, v)" by fastforce
  have "has_drive view io ct c (ata_out8 (reg_port reg) v a) (ide_write bus c reg v s)"
  proof (cases "reg_repr reg < 8")
    case True
    then show ?thesis using drive_write_low [OF bus Cons.prems(1) True, of v] by (simp add: reg_port_def)
  next
    case False
    then have "reg \<in> {SecCount1, Lba3, Lba4, Lba5}" using Cons.prems(2) w by (cases reg) simp_all
    from drive_write_hob [OF bus Cons.prems(1) this, of v] False show ?thesis by (simp add: reg_port_def)
  qed
  from Cons.IH [OF this] Cons.prems(2) w show ?case by simp
qed simp

lemma io_prepare_writes:
  assumes "wait_not_busy fuel bus (channel self)
      (let s0 = s\<lparr>CHANNELS := (CHANNELS s)[channel_repr (channel self) := (chan s (channel self))\<lparr>no_interrupt := 0x02\<rparr>]\<rparr>
       in ide_write bus (channel self) ControlAndAltStatus (no_interrupt (chan s0 (channel self))) s0) = Done s2"
    and "io_address (capabilities self) lba = Done (mode, io, head)" "mode \<noteq> Chs"
  shows "io_prepare fuel bus self lba n False is_write s = Done (mode, fold (\<lambda>(reg, v). ide_write bus (channel self) reg v)
    ([(HddEvSel, 0xE0 OR (case drive self of Master \<Rightarrow> 0 | Slave \<Rightarrow> 0x10) OR head)] @
     (if mode = Lba48 then [(SecCount1, 0), (Lba3, io ! 3), (Lba4, io ! 4), (Lba5, io ! 5)] else []) @
     [(SecCount0, n), (Lba0, io ! 0), (Lba1, io ! 1), (Lba2, io ! 2),
      (CommandAndStatus, if mode = Lba48 then if is_write then 0x34 else 0x24 else if is_write then 0x30 else 0x20)]) s2)"
  using assms
  by (cases mode; cases is_write) (simp_all add: io_prepare_def io_command_def Let_def del: reg_low reg_control)

lemma io_prepare_drive:
  assumes bus: "ata_bus bus io ct view" and s: "has_drive view io ct (channel self) a s" and fuel: "busy a < fuel"
    and adr: "addressable self lba" and n: "n \<noteq> 0"
  shows "\<exists>mode s' b. io_prepare fuel bus self lba n False is_write s = Done (mode, s') \<and>
    has_drive view io ct (channel self) b s' \<and> transfer_started is_write (unat lba) (unat n) a b"
proof -
  let ?c = "channel self" and ?sl = "case drive self of Master \<Rightarrow> 0 | Slave \<Rightarrow> (0x10 :: u8)"
  obtain s2 where w: "wait_not_busy fuel bus ?c
      (let s0 = s\<lparr>CHANNELS := (CHANNELS s)[channel_repr ?c := (chan s ?c)\<lparr>no_interrupt := 0x02\<rparr>]\<rparr>
       in ide_write bus ?c ControlAndAltStatus (no_interrupt (chan s0 ?c)) s0) = Done s2"
      and s2: "has_drive view io ct ?c (a\<lparr>busy := 0\<rparr>) s2"
    using wait_not_busy_drive [OF bus drive_write_control [OF bus has_drive_no_interrupt [OF s]] fuel]
    unfolding Let_def by blast
  have sl: "?sl \<in> {0, 0x10}" by (cases "drive self") simp_all
  show ?thesis
  proof (cases "0x10000000 \<le> lba")
    case True
    let ?io = "[ucast lba, ucast (drop_bit 8 lba), ucast (drop_bit 16 lba), ucast (drop_bit 24 lba), 0, 0] :: u8 list"
    have adr: "io_address (capabilities self) lba = Done (Lba48, ?io, 0)"
      using True by (simp add: io_address_def address_bytes)
    have ne: "Lba48 \<noteq> Chs" by simp
    show ?thesis
      by (intro exI conjI, rule io_prepare_writes [OF w adr ne], rule drive_writes [OF bus s2])
        (simp_all add: transfer_started_def ata_out8_def reg_port_def ata_command_def ata_read_def ata_write_def
          lba48_def count48_def join_bytes n unat_eq_zero Let_def)
  next
    case False
    then have caps: "capabilities self AND 0x200 \<noteq> 0" and small: "lba < 0x10000000" using adr by (auto simp: addressable_def)
    let ?io = "[ucast lba, ucast (drop_bit 8 lba), ucast (drop_bit 16 lba), 0, 0, 0] :: u8 list"
    have adr: "io_address (capabilities self) lba = Done (Lba28, ?io, ucast (drop_bit 24 (lba AND 0xF000000)))"
      using False caps by (simp add: io_address_def address_bytes)
    have ne: "Lba28 \<noteq> Chs" by simp
    show ?thesis
      by (intro exI conjI, rule io_prepare_writes [OF w adr ne], rule drive_writes [OF bus s2])
        (simp_all add: transfer_started_def ata_out8_def reg_port_def ata_command_def ata_read_def ata_write_def
          lba28_def count28_def head_bits [OF small sl, simplified] join_bytes n)
  qed
qed

section \<open>Reading\<close>

text \<open>A drive between commands that the polling loops, with their fuel, wait for.\<close>

definition ata_ready :: "nat \<Rightarrow> ata \<Rightarrow> bool" where
  "ata_ready fuel a \<longleftrightarrow> ata_idle a \<and> busy a < fuel \<and> latency a < fuel"

lemma read_words_drive:
  assumes bus: "ata_bus bus io ct view"
    and "busy (view d) = 0" "out_words (view d) = ws @ rest" "ws \<noteq> []" "length ws \<le> 256" "length rest mod 256 = 0"
  shows "fst (read_words bus (Port_new io) (length ws) d) = ws \<and>
    view (snd (read_words bus (Port_new io) (length ws) d)) =
      (view d)\<lparr>out_words := rest, busy := (if rest \<noteq> [] then latency (view d) else 0)\<rparr>"
  using assms(2-)
proof (induction ws arbitrary: d)
  case (Cons w ws)
  let ?d = "snd (bus_in16 bus io d)"
  have w: "fst (bus_in16 bus io d) = w"
    and d: "view ?d = (view d)\<lparr>out_words := ws @ rest,
      busy := (if ws @ rest \<noteq> [] \<and> length (ws @ rest) mod 256 = 0 then latency (view d) else 0)\<rparr>"
    using bus Cons.prems by (simp_all add: ata_bus_def ata_in16_def Let_def)
  show ?case
  proof (cases "ws = []")
    case True
    then show ?thesis using w d Cons.prems(5) by (simp add: split_def Let_def)
  next
    case False
    have "0 < length ws" "length ws < 256" using False Cons.prems(4) by simp_all
    then have "(length ws + length rest) mod 256 = length ws"
      using Cons.prems(5) by (metis add.right_neutral mod_add_right_eq mod_less)
    then have d': "view ?d = (view d)\<lparr>out_words := ws @ rest, busy := 0\<rparr>"
      using d False by simp
    then have "busy (view ?d) = 0" "out_words (view ?d) = ws @ rest" by simp_all
    from Cons.IH [OF this False _ Cons.prems(5)] Cons.prems(4)
    have "fst (read_words bus (Port_new io) (length ws) ?d) = ws"
      "view (snd (read_words bus (Port_new io) (length ws) ?d)) =
        (view ?d)\<lparr>out_words := rest, busy := (if rest \<noteq> [] then latency (view ?d) else 0)\<rparr>" by simp_all
    then show ?thesis using w d' by (simp add: split_def Let_def)
  qed
qed simp

lemma read_sectors_drive:
  assumes bus: "ata_bus bus io ct view"
    and "has_drive view io ct c b s" "busy b < fuel" "latency b < fuel" "out_words b = concat secs"
      "\<forall>x\<in>set secs. length x = 256"
  shows "\<exists>s' b'. read_sectors fuel bus c (Port_new io) (length secs) acc s = Done (Inr (acc @ secs), s') \<and>
    has_drive view io ct c b' s' \<and> out_words b' = [] \<and> busy b' < fuel \<and> latency b' < fuel \<and>
    disk b' = disk b \<and> wr_left b' = wr_left b"
  using assms(2-)
proof (induction secs arbitrary: b s acc)
  case (Cons x secs)
  from polling_drive [OF bus Cons.prems(1,2), of True] obtain s1
    where s1: "ide_polling fuel bus c True s = Done (NoError, s1)" "has_drive view io ct c (b\<lparr>busy := 0\<rparr>) s1" by blast
  let ?d = "snd (read_words bus (Port_new io) 256 (dev s1))"
  have x: "length x = 256" and secs: "\<forall>x\<in>set secs. length x = 256" using Cons.prems(5) by simp_all
  have "length (concat secs) = 256 * length secs" using secs by (induction secs) simp_all
  then have "length (concat secs) mod 256 = 0" by simp
  moreover have v: "view (dev s1) = b\<lparr>busy := 0\<rparr>" using s1(2) by (simp add: has_drive_def)
  moreover have "x \<noteq> []" using x by auto
  ultimately have w: "fst (read_words bus (Port_new io) 256 (dev s1)) = x"
    "view ?d = b\<lparr>out_words := concat secs, busy := (if concat secs \<noteq> [] then latency b else 0)\<rparr>"
    using read_words_drive [OF bus, of "dev s1" x "concat secs"] x Cons.prems(4) by (simp_all del: concat_eq_Nil_conv)
  then have "has_drive view io ct c (b\<lparr>out_words := concat secs, busy := (if concat secs \<noteq> [] then latency b else 0)\<rparr>)
      (s1\<lparr>dev := ?d\<rparr>)" using s1(2) by (simp add: has_drive_def)
  from Cons.IH [OF this, of "acc @ [x]"] Cons.prems(2,3) secs show ?case
    using s1(1) w(1) by (auto simp: split_def Let_def simp del: concat_eq_Nil_conv split: if_splits)
qed auto

lemma has_drive_io: "has_drive view io ct c a s \<Longrightarrow> io_base (chan s c) = io"
  by (simp add: has_drive_def)

lemma read_impl_drive:
  assumes bus: "ata_bus bus io ct view" and s: "has_drive view io ct (channel self) a s" and a: "ata_ready fuel a"
    and adr: "addressable self lba" and n: "num \<noteq> 0"
  shows "\<exists>s' b. read_impl fuel bus self lba num s = Done (Inr (sectors (disk a) (unat lba) (unat num)), s') \<and>
    has_drive view io ct (channel self) b s' \<and> ata_ready fuel b \<and> disk b = disk a"
proof -
  let ?secs = "sectors (disk a) (unat lba) (unat num)"
  have fuel: "busy a < fuel" "latency a < fuel" and idle: "\<And>n. length (disk a n) = 256"
    using a by (simp_all add: ata_ready_def ata_idle_def)
  from io_prepare_drive [OF bus s fuel(1) adr n, of False] obtain mode s1 b
    where p: "io_prepare fuel bus self lba num False False s = Done (mode, s1)"
      and b: "has_drive view io ct (channel self) b s1" "transfer_started False (unat lba) (unat num) a b" by blast
  then have b': "busy b < fuel" "latency b < fuel" "out_words b = concat ?secs" "disk b = disk a" "wr_left b = 0"
    using fuel by (simp_all add: transfer_started_def)
  have len: "\<forall>x\<in>set ?secs. length x = 256" "length ?secs = unat num" using idle by (auto simp: sectors_def)
  from read_sectors_drive [OF bus b(1) b'(1-3) len(1), of "[]"] len(2) obtain s' c where
    "read_sectors fuel bus (channel self) (Port_new io) (unat num) [] s1 = Done (Inr ?secs, s')"
    "has_drive view io ct (channel self) c s'" "out_words c = []" "busy c < fuel" "latency c < fuel"
    "disk c = disk a" "wr_left c = 0" using b'(4,5) by auto
  then show ?thesis using p has_drive_io [OF b(1)] idle
    by (auto simp: read_impl_def ata_ready_def ata_idle_def)
qed

section \<open>Writing\<close>

lemma write_words_drive:
  assumes bus: "ata_bus bus io ct view"
    and "busy (view d) = 0" "wr_left (view d) > 0" "length (in_words (view d)) + length ws = 256" "ws \<noteq> []"
  shows "view (write_words bus (Port_new io) ws d) =
    (view d)\<lparr>disk := (disk (view d))(wr_sector (view d) := in_words (view d) @ ws), wr_sector := wr_sector (view d) + 1,
      wr_left := wr_left (view d) - 1, in_words := [], busy := latency (view d)\<rparr>"
  using assms(2-)
proof (induction ws arbitrary: d)
  case (Cons w ws)
  let ?d = "bus_out16 bus io w d"
  have d: "view ?d = ata_out16 0 w (view d)" using bus by (simp add: ata_bus_def)
  show ?case
  proof (cases "ws = []")
    case True
    then have "length (in_words (view d)) = 255" using Cons.prems(3) by simp
    then show ?thesis using True d Cons.prems(1,2) by (simp add: ata_out16_def fun_upd_def)
  next
    case False
    then have "length (in_words (view d)) \<noteq> 255" using Cons.prems(3) by (cases ws) simp_all
    then have d': "view ?d = (view d)\<lparr>in_words := in_words (view d) @ [w]\<rparr>"
      using d Cons.prems(1,2) by (simp add: ata_out16_def)
    from Cons.IH [of ?d] Cons.prems(1-3) False show ?thesis by (simp add: d' fun_upd_def)
  qed
qed simp

lemma write_sectors_drive:
  assumes bus: "ata_bus bus io ct view"
    and "has_drive view io ct c b s" "busy b < fuel" "latency b < fuel" "wr_left b = length data" "in_words b = []"
      "\<forall>x\<in>set data. length x = 256"
  shows "\<exists>s' b'. write_sectors fuel bus c (Port_new io) data s = Done s' \<and>
    has_drive view io ct c b' s' \<and> wr_left b' = 0 \<and> busy b' < fuel \<and> latency b' < fuel \<and>
    disk b' = write_at (disk b) (wr_sector b) data \<and> out_words b' = out_words b"
  using assms(2-)
proof (induction data arbitrary: b s)
  case (Cons x data)
  from polling_drive [OF bus Cons.prems(1,2), of False] obtain s1
    where s1: "ide_polling fuel bus c False s = Done (NoError, s1)" "has_drive view io ct c (b\<lparr>busy := 0\<rparr>) s1" by blast
  let ?d = "write_words bus (Port_new io) x (dev s1)"
  let ?b = "b\<lparr>disk := (disk b)(wr_sector b := x), wr_sector := wr_sector b + 1, wr_left := length data, in_words := [],
      busy := latency b\<rparr>"
  have x: "length x = 256" "x \<noteq> []" using Cons.prems(6) by auto
  have v: "view (dev s1) = b\<lparr>busy := 0\<rparr>" using s1(2) by (simp add: has_drive_def)
  have "view ?d = ?b"
    using write_words_drive [OF bus, of "dev s1" x] x v Cons.prems(4,5) by (simp add: fun_upd_def)
  then have "has_drive view io ct c ?b (s1\<lparr>dev := ?d\<rparr>)" using s1(2) by (simp add: has_drive_def)
  from Cons.IH [OF this] Cons.prems(3,6) show ?case
    using s1(1) by (auto simp: write_at_Cons write_at_Cons [unfolded fun_upd_def])
qed auto

lemma flush_drive: "v \<in> {0xE7, 0xEA} \<Longrightarrow> ata_out8 7 v b = b\<lparr>busy := if busy b > 0 then busy b else latency b\<rparr>"
  by (auto simp: ata_out8_def ata_command_def)

lemma write_impl_drive:
  assumes bus: "ata_bus bus io ct view" and s: "has_drive view io ct (channel self) a s" and a: "ata_ready fuel a"
    and adr: "addressable self lba" and n: "data \<noteq> []" "length data < 256" and len: "\<forall>x\<in>set data. length x = 256"
  shows "\<exists>s' b. write_impl fuel bus self lba data s = Done (Inr (), s') \<and>
    has_drive view io ct (channel self) b s' \<and> ata_ready fuel b \<and> disk b = write_at (disk a) (unat lba) data"
proof -
  let ?n = "of_nat (length data) :: u8"
  have un: "unat ?n = length data" using n(2) by (simp add: unat_of_nat)
  then have n0: "?n \<noteq> 0" using n(1) by (metis length_0_conv unat_0)
  have fuel: "busy a < fuel" "latency a < fuel" and idle: "\<And>n. length (disk a n) = 256"
    using a by (simp_all add: ata_ready_def ata_idle_def)
  from io_prepare_drive [OF bus s fuel(1) adr n0, of True] un obtain mode s1 b
    where p: "io_prepare fuel bus self lba ?n False True s = Done (mode, s1)"
      and b: "has_drive view io ct (channel self) b s1" "transfer_started True (unat lba) (length data) a b" by auto
  then have b': "busy b < fuel" "latency b < fuel" "wr_left b = length data" "in_words b = []"
      "disk b = disk a" "out_words b = []" "wr_sector b = unat lba"
    using fuel by (simp_all add: transfer_started_def)
  from write_sectors_drive [OF bus b(1) b'(1-4) len] b'(5-7) obtain s2 c where
    w: "write_sectors fuel bus (channel self) (Port_new io) data s1 = Done s2"
    and c: "has_drive view io ct (channel self) c s2" "wr_left c = 0" "busy c < fuel" "latency c < fuel"
      "disk c = write_at (disk a) (unat lba) data" "out_words c = []" by auto
  define cmd :: u8 where "cmd = command_repr (case mode of Lba48 \<Rightarrow> CacheFlushExt | _ \<Rightarrow> CacheFlush)"
  have cmd: "cmd \<in> {0xE7, 0xEA}" by (cases mode) (simp_all add: cmd_def)
  let ?c = "c\<lparr>busy := if busy c > 0 then busy c else latency c\<rparr>"
  have f: "has_drive view io ct (channel self) ?c (ide_write bus (channel self) CommandAndStatus cmd s2)"
    using drive_write_low [OF bus c(1), of CommandAndStatus cmd] flush_drive [OF cmd] by (simp del: reg_low)
  have "busy ?c < fuel" using c by simp
  from polling_drive [OF bus f this, of False] obtain s3
    where s3: "ide_polling fuel bus (channel self) False (ide_write bus (channel self) CommandAndStatus cmd s2) = Done (NoError, s3)"
      "has_drive view io ct (channel self) (?c\<lparr>busy := 0\<rparr>) s3" by blast
  have "write_impl fuel bus self lba data s = Done (Inr (), s3)"
    using p w s3(1) has_drive_io [OF b(1)] by (cases mode) (simp_all add: write_impl_def cmd_def del: reg_low)
  moreover have "ata_ready fuel (?c\<lparr>busy := 0\<rparr>)"
    using c idle len fuel by (auto simp: ata_ready_def ata_idle_def write_at_def)
  ultimately show ?thesis using s3(2) c(5) by (intro exI [of _ s3] exI [of _ "?c\<lparr>busy := 0\<rparr>"]) simp
qed

section \<open>The block device\<close>

text \<open>A range of sectors on the drive, counted without overflow.\<close>

lemma range_check:
  fixes lba :: u32 and size :: u32
  assumes "unat lba + n \<le> unat size"
  shows "\<not> size < lba + of_nat n"
proof -
  have "unat lba + n < 2 ^ 32" using assms unsigned_less [of size, where ?'a = nat] by simp
  then have "unat (lba + of_nat n) = unat lba + n"
    by (simp add: unat_word_ariths unat_of_nat mod_add_right_eq)
  then show ?thesis using assms by (simp add: word_less_nat_alt)
qed

lemma range_check_u8:
  fixes lba :: u32 and size :: u32 and num :: u8
  assumes "unat lba + unat num \<le> unat size"
  shows "\<not> size < lba + ucast num"
  using range_check [OF assms] by (simp add: of_nat_unat)

lemma unat_add_u8:
  fixes lba :: u32 and num :: u8
  shows "unat (lba + ucast num) = (unat lba + unat num) mod 2 ^ 32"
proof -
  have "unat num < 2 ^ 8" using unsigned_less [of num, where ?'a = nat] by simp
  then have "unat (ucast num :: u32) = unat num" by (simp add: unsigned_ucast_eq take_bit_nat_eq_self)
  then show ?thesis by (simp add: unat_word_ariths)
qed

text \<open>
  C9. Reading sectors through \<^verbatim>\<open>BlockDevice::read\<close> from an addressable drive that keeps
  its PIO protocol returns exactly the contents of the requested sectors, for both the 28-bit and the 48-bit addressing,
  however long the drive stays busy after each command and sector; the disk is unchanged and the drive is ready again.
\<close>

theorem ide_read_returns_sectors:
  assumes "ata_bus bus io ct view" "has_drive view io ct (channel self) a s" "ata_ready fuel a" "addressable self lba"
    "num \<noteq> 0" "unat lba + unat num \<le> unat (dev_size self)"
  shows "\<exists>s' b. ide_device_read fuel bus self lba num s = Done (Inr (sectors (disk a) (unat lba) (unat num)), s') \<and>
    has_drive view io ct (channel self) b s' \<and> ata_ready fuel b \<and> disk b = disk a"
  using read_impl_drive [OF assms(1-5)] range_check_u8 [OF assms(6)]
  by (simp add: ide_device_read_def)

text \<open>
  C24. Writing sectors through \<^verbatim>\<open>BlockDevice::write\<close> succeeds on such a drive and changes
  exactly the addressed sectors to the given data.
\<close>

theorem ide_write_updates_sectors:
  assumes "ata_bus bus io ct view" "has_drive view io ct (channel self) a s" "ata_ready fuel a" "addressable self lba"
    "data \<noteq> []" "length data < 256" "\<forall>x\<in>set data. length x = 256" "unat lba + length data \<le> unat (dev_size self)"
  shows "\<exists>s' b. ide_device_write fuel bus self lba data s = Done (Inr (), s') \<and>
    has_drive view io ct (channel self) b s' \<and> ata_ready fuel b \<and> disk b = write_at (disk a) (unat lba) data"
  using write_impl_drive [OF assms(1-7)] range_check [OF assms(8)]
  by (simp add: ide_device_write_def)

text \<open>The driver as a block device: the drive is ready, addressable by 28 bits and shows the contents \<open>d\<close>.\<close>

definition ide_content :: "nat \<Rightarrow> 'm bus \<Rightarrow> u16 \<Rightarrow> u16 \<Rightarrow> ('m \<Rightarrow> ata) \<Rightarrow> IDEDevice \<Rightarrow> 'm ide \<Rightarrow> (nat \<Rightarrow> u16 list) \<Rightarrow> bool" where
  "ide_content fuel bus io ct view self s d \<longleftrightarrow>
     ata_bus bus io ct view \<and> capabilities self AND 0x200 \<noteq> 0 \<and>
     (\<exists>a. has_drive view io ct (channel self) a s \<and> ata_ready fuel a \<and> disk a = d)"

lemma ide_read_content:
  assumes "ide_content fuel bus io ct view self s d" "num \<noteq> 0" "unat lba + unat num \<le> unat (dev_size self)"
  shows "\<exists>s'. ide_device_read fuel bus self lba num s = Done (Inr (sectors d (unat lba) (unat num)), s') \<and>
    ide_content fuel bus io ct view self s' d"
proof -
  from assms(1) obtain a where a: "ata_bus bus io ct view" "capabilities self AND 0x200 \<noteq> 0"
    "has_drive view io ct (channel self) a s" "ata_ready fuel a" "disk a = d" by (auto simp: ide_content_def)
  then show ?thesis
    using read_impl_drive [OF a(1,3,4) _ assms(2), of lba] range_check_u8 [OF assms(3)]
    by (auto simp: ide_device_read_def addressable_def ide_content_def)
qed

lemma ide_write_content:
  assumes "ide_content fuel bus io ct view self s d" "data \<noteq> []" "length data < 256" "\<forall>x\<in>set data. length x = 256"
    "unat lba + length data \<le> unat (dev_size self)"
  shows "\<exists>s'. ide_device_write fuel bus self lba data s = Done (Inr (), s') \<and>
    ide_content fuel bus io ct view self s' (write_at d (unat lba) data)"
proof -
  from assms(1) obtain a where a: "ata_bus bus io ct view" "capabilities self AND 0x200 \<noteq> 0"
    "has_drive view io ct (channel self) a s" "ata_ready fuel a" "disk a = d" by (auto simp: ide_content_def)
  then show ?thesis
    using write_impl_drive [OF a(1,3,4) _ assms(2-4), of lba] range_check [OF assms(5)]
    by (auto simp: ide_device_write_def addressable_def ide_content_def)
qed

interpretation ide_dev: block_device "ide_device_read fuel bus self" "ide_device_write fuel bus self"
  "unat (dev_size self)" "ide_content fuel bus io ct view self"
proof
  fix s d n assume "ide_content fuel bus io ct view self s d"
  then show "length (d n) = 256" by (auto simp: ide_content_def ata_ready_def ata_idle_def)
qed (erule ide_read_content ide_write_content; assumption)+

text \<open>
  C25. What has been written is read back, and sectors elsewhere on the disk read as before.
\<close>

theorem ide_write_read_roundtrip:
  assumes "ide_content fuel bus io ct view self s d" "data \<noteq> []" "length data < 256" "\<forall>x\<in>set data. length x = 256"
    "unat lba + length data \<le> unat (dev_size self)" "num \<noteq> 0" "unat lba' + unat num \<le> unat (dev_size self)"
  shows "\<exists>s1 s2 result. ide_device_write fuel bus self lba data s = Done (Inr (), s1) \<and>
    ide_device_read fuel bus self lba' num s1 = Done (Inr result, s2) \<and>
    (lba' = lba \<and> unat num = length data \<longrightarrow> result = data) \<and>
    (unat lba' + unat num \<le> unat lba \<or> unat lba + length data \<le> unat lba' \<longrightarrow>
      result = sectors d (unat lba') (unat num))"
  by (rule ide_dev.write_read [OF assms])


section \<open>A concrete drive\<close>

text \<open>The bus of a machine with one drive on the primary channel.\<close>

definition ata_machine :: "ata bus" where
  "ata_machine =
     \<lparr>bus_out8 = \<lambda>p. ata_out8 (p - 0x1F0), bus_out16 = \<lambda>p. ata_out16 (p - 0x1F0), bus_out32 = \<lambda>p v d. d,
      bus_in8 = \<lambda>p d. (ata_status d, ata_in8 (p - 0x1F0) d), bus_in16 = \<lambda>p. ata_in16 (p - 0x1F0),
      bus_in32 = \<lambda>p d. (0, d)\<rparr>"

definition sector_sample :: "nat \<Rightarrow> u16 list" where
  "sector_sample n = replicate 256 (of_nat n)"

definition ata_sample :: ata where
  "ata_sample = \<lparr>disk = sector_sample, r_count = (0, 0), r_lo = (0, 0), r_mid = (0, 0), r_hi = (0, 0),
     r_select = 0, busy = 1, latency = 3, out_words = [], wr_sector = 0, wr_left = 0, in_words = []\<rparr>"

definition ide_sample :: "ata ide" where
  "ide_sample = \<lparr>CHANNELS = [\<lparr>io_base = 0x1F0, ctrl = 0x3F4, bm_ide = 0, no_interrupt = 0\<rparr>,
     \<lparr>io_base = 0x170, ctrl = 0x374, bm_ide = 8, no_interrupt = 0\<rparr>], dev = ata_sample\<rparr>"

definition device_sample :: IDEDevice where
  "device_sample = \<lparr>channel = Primary, drive = Master, interface_type = Ata, signature = 0, capabilities = 0x200,
     command_sets = 0, dev_size = 100, model = [], enabled_48bit = False\<rparr>"

lemma length_sector: "length (sector_sample n) = 256"
  by (simp add: sector_sample_def)

lemma sample_holds:
  "ata_bus ata_machine 0x1F0 0x3F4 id" "has_drive id 0x1F0 0x3F4 (channel device_sample) ata_sample ide_sample"
  "ata_ready 5 ata_sample" "addressable device_sample lba" "dev_size device_sample = 100"
  by (simp_all add: ata_bus_def ata_machine_def has_drive_def ata_sample_def ide_sample_def device_sample_def chan_def
      ata_ready_def ata_idle_def addressable_def sector_sample_def)

lemma sample_content: "ide_content 5 ata_machine 0x1F0 0x3F4 id device_sample ide_sample sector_sample"
  using sample_holds by (auto simp: ide_content_def device_sample_def ata_sample_def)

theorem ide_read_returns_sectors_witness:
  "\<exists>s' b. ide_device_read 5 ata_machine device_sample 7 2 ide_sample =
      Done (Inr [sector_sample 7, sector_sample 8], s') \<and> disk b = disk ata_sample \<and>
    has_drive id 0x1F0 0x3F4 (channel device_sample) b s'"
  using ide_read_returns_sectors [OF sample_holds(1-4) _, of 2 7] sample_holds(5)
  by (auto simp: sectors_def ata_sample_def upt_rec)

theorem ide_write_updates_sectors_witness:
  "\<exists>s' b. ide_device_write 5 ata_machine device_sample 7 [sector_sample 1] ide_sample = Done (Inr (), s') \<and>
    has_drive id 0x1F0 0x3F4 (channel device_sample) b s' \<and> disk b = write_at sector_sample 7 [sector_sample 1]"
  using ide_write_updates_sectors [OF sample_holds(1-4), of "[sector_sample 1]" 7] sample_holds(5)
  by (auto simp: ata_sample_def length_sector)

theorem ide_write_read_roundtrip_witness:
  "\<exists>s1 s2. ide_device_write 5 ata_machine device_sample 7 [sector_sample 1] ide_sample = Done (Inr (), s1) \<and>
    ide_device_read 5 ata_machine device_sample 7 1 s1 = Done (Inr [sector_sample 1], s2)"
  using ide_write_read_roundtrip [OF sample_content, of "[sector_sample 1]" 7 1 7] sample_holds(5)
  by (auto simp: length_sector)

end
