(* ===== verification/Gpt.thy ===== *)
theory Gpt
  imports Byte_Order Crc Ata
begin

text \<open>
  The partition table reader (\<^verbatim>\<open>src/gpt.rs\<close>), a client of a block device. The packed structures are
  records read from bytes at the offsets of their fields. The parser only writes what it finds to the log;
  the model returns these messages as a list.
\<close>

section \<open>Structures\<close>

record PartitionTableEntry =
  bootable :: u8
  starting_chs :: "u8 list"
  partition_type :: u8
  ending_chs :: "u8 list"
  starting_lba32 :: u32
  ending_lba32 :: u32

definition PartitionTableEntry_at :: "u8 list \<Rightarrow> nat \<Rightarrow> PartitionTableEntry" where
  "PartitionTableEntry_at bs off =
     \<lparr>bootable = le_field bs off 1, starting_chs = take 3 (drop (off + 1) bs), partition_type = le_field bs (off + 4) 1,
      ending_chs = take 3 (drop (off + 5) bs), starting_lba32 = le_field bs (off + 8) 4, ending_lba32 = le_field bs (off + 12) 4\<rparr>"

record ProtectiveMasterBootRecord =
  mbr_bootstrap :: "u8 list"
  mbr_signature :: u32
  mbr_reserved :: u16
  entry_0 :: PartitionTableEntry
  entry_1 :: PartitionTableEntry
  entry_2 :: PartitionTableEntry
  entry_3 :: PartitionTableEntry
  valid_bootsector_signature :: "u8 list"

definition ProtectiveMasterBootRecord_at :: "u8 list \<Rightarrow> ProtectiveMasterBootRecord" where
  "ProtectiveMasterBootRecord_at bs =
     \<lparr>mbr_bootstrap = take 440 bs, mbr_signature = le_field bs 440 4, mbr_reserved = le_field bs 444 2,
      entry_0 = PartitionTableEntry_at bs 446, entry_1 = PartitionTableEntry_at bs 462,
      entry_2 = PartitionTableEntry_at bs 478, entry_3 = PartitionTableEntry_at bs 494,
      valid_bootsector_signature = take 2 (drop 510 bs)\<rparr>"

record PartitionTableHeader =
  gpt_signature :: "u8 list"
  gpt_revision :: u32
  header_size :: u32
  header_checksum :: u32
  gpt_reserved :: u32
  this_header_lba :: u64
  alternate_header_lba :: u64
  first_usable_block :: u64
  last_usable_block :: u64
  disk_guid :: u128
  starting_lba_of_array :: u64
  entries_num :: u32
  entry_size :: u32
  array_checksum :: u32
  reserved_tail :: "u8 list"

definition PartitionTableHeader_at :: "u8 list \<Rightarrow> PartitionTableHeader" where
  "PartitionTableHeader_at bs =
     \<lparr>gpt_signature = take 8 bs, gpt_revision = le_field bs 8 4, header_size = le_field bs 12 4,
      header_checksum = le_field bs 16 4, gpt_reserved = le_field bs 20 4, this_header_lba = le_field bs 24 8,
      alternate_header_lba = le_field bs 32 8, first_usable_block = le_field bs 40 8, last_usable_block = le_field bs 48 8,
      disk_guid = le_field bs 56 16, starting_lba_of_array = le_field bs 72 8, entries_num = le_field bs 80 4,
      entry_size = le_field bs 84 4, array_checksum = le_field bs 88 4, reserved_tail = take 420 (drop 92 bs)\<rparr>"

record PartitionEntry =
  partition_type_guid :: u128
  unique_partition_guid :: u128
  starting_lba :: u64
  ending_lba :: u64
  attributes :: u64
  partition_name_and_tail :: "u8 list"

definition PartitionEntry_at :: "u8 list \<Rightarrow> PartitionEntry" where
  "PartitionEntry_at bs =
     \<lparr>partition_type_guid = le_field bs 0 16, unique_partition_guid = le_field bs 16 16, starting_lba = le_field bs 32 8,
      ending_lba = le_field bs 40 8, attributes = le_field bs 48 8, partition_name_and_tail = take 456 (drop 56 bs)\<rparr>"

datatype GptError = InvalidProtectiveMBR | InvalidPartitionTableHeader | InvalidTableHeaderChecksum | InvalidMyLbaHeader
  | InvalidEntriesArrayChecksum

section \<open>Printing a GUID\<close>

text \<open>The format \<open>{:02X}\<close> of a byte.\<close>

definition hex_digit :: "nat \<Rightarrow> char" where
  "hex_digit n = ''0123456789ABCDEF'' ! n"

definition hex2 :: "u8 \<Rightarrow> string" where
  "hex2 b = [hex_digit (unat b div 16), hex_digit (unat b mod 16)]"

definition guid_to_str :: "u128 \<Rightarrow> string" where
  "guid_to_str guid =
     (let slice = le_bytes 16 guid; h = (\<lambda>i. hex2 (slice ! i))
      in h 3 @ h 2 @ h 1 @ h 0 @ ''-'' @ h 5 @ h 4 @ ''-'' @ h 7 @ h 6 @ ''-'' @ h 8 @ h 9 @ ''-'' @
         h 10 @ h 11 @ h 12 @ h 13 @ h 14 @ h 15)"

section \<open>The parser\<close>

text \<open>\<open>device.read(lba, 1).expect(...)[0]\<close>, as bytes.\<close>

definition read_sector :: "(u32 \<Rightarrow> u8 \<Rightarrow> 's \<Rightarrow> (('e + u16 list list) \<times> 's) outcome) \<Rightarrow> string \<Rightarrow> u32 \<Rightarrow> 's \<Rightarrow> (u8 list \<times> 's) outcome" where
  "read_sector device_read msg lba s =
     bindO (device_read lba 1 s) (\<lambda>(r, s).
     bindO (expect msg r) (\<lambda>secs.
     if secs = [] then Panic ''index out of bounds'' else Done (le_bytes16 (hd secs), s)))"

definition mbr_invalid :: "ProtectiveMasterBootRecord \<Rightarrow> bool" where
  "mbr_invalid protective_mbr \<longleftrightarrow>
     valid_bootsector_signature protective_mbr \<noteq> [0x55, 0xaa] \<or>
     (let first_partition_mbr = entry_0 protective_mbr
      in bootable first_partition_mbr \<noteq> 0x0 \<or> starting_chs first_partition_mbr \<noteq> [0x0, 0x2, 0x0] \<or>
         partition_type first_partition_mbr \<noteq> 0xee \<or> starting_lba32 first_partition_mbr \<noteq> 0x1)"

text \<open>The header with its checksum field cleared.\<close>

definition clear_checksum :: "u8 list \<Rightarrow> u8 list" where
  "clear_checksum lba1 = take 16 lba1 @ [0, 0, 0, 0] @ drop 20 lba1"

text \<open>The loop over the sectors of the entry array.\<close>

fun entries_crc :: "u16 list list \<Rightarrow> u32 \<Rightarrow> u32 \<Rightarrow> u32" where
  "entries_crc [] bytes_remain entries_checksum = entries_checksum"
| "entries_crc (entry_lba # rest) bytes_remain entries_checksum =
     (let entry_slice = take (min (unat bytes_remain) 512) (le_bytes16 entry_lba)
      in entries_crc rest (if bytes_remain > 512 then bytes_remain - 512 else bytes_remain)
           (calculate_crc32_partial entry_slice entries_checksum))"

record gpt_message =
  msg_lba :: usize
  msg_index :: u32
  msg_type :: string
  msg_id :: string
  msg_start :: u64
  msg_end :: u64
  msg_attributes :: u64
  msg_name :: "u8 list"

text \<open>
  The message for entry \<open>i\<close> of the sector \<open>idx\<close> of the array, none for an unused entry. The array is contiguous in
  memory, followed by \<open>heap\<close>. The name is the part of the tail that \<open>split_at\<close> cuts off; it has to be UTF-8.
\<close>

definition log_entry :: "PartitionTableHeader \<Rightarrow> (nat \<Rightarrow> u8) \<Rightarrow> u8 list \<Rightarrow> nat \<Rightarrow> u32 \<Rightarrow> gpt_message option outcome" where
  "log_entry header heap array idx i =
     (let offset = 2 * unat (i * entry_size header div 2);
          partition_entry = PartitionEntry_at (bytes_at heap array (512 * idx + offset) 512);
          mid = unat (entry_size header - 0x38 + 1)
      in if partition_type_guid partition_entry = 0 then Done None
         else if length (partition_name_and_tail partition_entry) < mid then Panic ''mid > len''
         else let partition_name = take mid (partition_name_and_tail partition_entry)
              in if utf8_ok (map unat partition_name) then
                   Done (Some \<lparr>msg_lba = of_nat idx + starting_lba_of_array header, msg_index = i,
                     msg_type = guid_to_str (partition_type_guid partition_entry),
                     msg_id = guid_to_str (unique_partition_guid partition_entry),
                     msg_start = starting_lba partition_entry, msg_end = ending_lba partition_entry,
                     msg_attributes = attributes partition_entry, msg_name = partition_name\<rparr>)
                 else Panic ''called `Result::unwrap()` on an `Err` value'')"

definition log_entries :: "PartitionTableHeader \<Rightarrow> (nat \<Rightarrow> u8) \<Rightarrow> u16 list list \<Rightarrow> gpt_message list outcome" where
  "log_entries header heap entries_lba =
     bindO (mapO (\<lambda>idx.
         if entry_size header = 0 then Panic ''attempt to divide by zero''
         else mapO (\<lambda>i. log_entry header heap (concat (map le_bytes16 entries_lba)) idx (of_nat i))
                [0..<unat (512 div entry_size header)])
       [0..<length entries_lba]) (\<lambda>messages.
     Done (List.map_filter id (concat messages)))"

definition parse_gpt ::
    "(u32 \<Rightarrow> u8 \<Rightarrow> 's \<Rightarrow> (('e + u16 list list) \<times> 's) outcome) \<Rightarrow> (nat \<Rightarrow> u8) \<Rightarrow> (nat \<Rightarrow> u8) \<Rightarrow> 's
      \<Rightarrow> ((GptError + unit) \<times> gpt_message list \<times> 's) outcome" where
  "parse_gpt device_read stack heap s =
     bindO (read_sector device_read ''Failed to read LBA 0'' 0x0 s) (\<lambda>(lba0, s).
     if mbr_invalid (ProtectiveMasterBootRecord_at lba0) then Done (Inl InvalidProtectiveMBR, [], s)
     else bindO (read_sector device_read ''Failed to read LBA 1'' 0x1 s) (\<lambda>(lba1, s).
     let header = PartitionTableHeader_at lba1 in
     if gpt_signature header \<noteq> [0x45, 0x46, 0x49, 0x20, 0x50, 0x41, 0x52, 0x54]
     then Done (Inl InvalidPartitionTableHeader, [], s)
     else if calculate_crc32 (bytes_at stack (clear_checksum lba1) 0 (unat (header_size header))) \<noteq> header_checksum header
     then Done (Inl InvalidTableHeaderChecksum, [], s)
     else if this_header_lba header \<noteq> 1 then Done (Inl InvalidMyLbaHeader, [], s)
     else bindO (device_read (ucast (starting_lba_of_array header)) (ucast (entries_num header * entry_size header div 512)) s) (\<lambda>(r, s).
     bindO (expect ''Failed to read LBAs of partition entry array'' r) (\<lambda>entries_lba.
     if array_checksum header \<noteq> NOT (entries_crc entries_lba (entries_num header * entry_size header) 0xFFFFFFFF)
     then Done (Inl InvalidEntriesArrayChecksum, [], s)
     else bindO (log_entries header heap entries_lba) (\<lambda>messages.
     Done (Inr (), messages, s))))))"

section \<open>GUIDs\<close>

lemma hex_digit_inj: "m < 16 \<Longrightarrow> n < 16 \<Longrightarrow> hex_digit m = hex_digit n \<longleftrightarrow> m = n"
  unfolding hex_digit_def by (rule nth_eq_iff_index_eq) simp_all

lemma hex2_inj: "hex2 a = hex2 b \<longleftrightarrow> a = b"
proof -
  have "unat a < 256" "unat b < 256"
    using unsigned_less [of a, where ?'a = nat] unsigned_less [of b, where ?'a = nat] by simp_all
  then have "hex2 a = hex2 b \<longleftrightarrow> unat a div 16 = unat b div 16 \<and> unat a mod 16 = unat b mod 16"
    by (simp add: hex2_def hex_digit_inj)
  also have "\<dots> \<longleftrightarrow> unat a = unat b" by (metis div_mult_mod_eq)
  finally show ?thesis by (simp add: word_unat_eq_iff)
qed

lemma length_hex2 [simp]: "length (hex2 b) = 2"
  by (simp add: hex2_def)

lemma guid_range: "[0..<16] = [0, 1, 2, 3, 4, 5, 6, 7, 8, 9, 10, 11, 12, 13, 14, 15]"
  by (simp add: upt_rec)

text \<open>
  The printed form of a GUID has 36 characters and determines the GUID.
\<close>

theorem guid_to_str_inj: "length (guid_to_str g) = 36 \<and> (guid_to_str g = guid_to_str g' \<longleftrightarrow> g = g')"
proof -
  have "le_bytes 16 g = le_bytes 16 g'" if "guid_to_str g = guid_to_str g'"
  proof (rule nth_equalityI)
    have "\<forall>i\<in>set [0..<16]. le_bytes 16 g ! i = le_bytes 16 g' ! i"
      using that unfolding guid_range guid_to_str_def Let_def by (simp add: append_eq_append_conv hex2_inj)
    moreover have "i \<in> set [0..<16]" if "i < length (le_bytes 16 g)" for i
      using that by (simp only: set_upt atLeastLessThan_iff length_le_bytes zero_le simp_thms)
    ultimately show "le_bytes 16 g ! i = le_bytes 16 g' ! i" if "i < length (le_bytes 16 g)" for i
      using that by blast
  qed simp
  moreover have "le_word (le_bytes 16 g) = g" "le_word (le_bytes 16 g') = g'"
    by (simp_all add: le_word_le_bytes)
  ultimately have "g = g'" if "guid_to_str g = guid_to_str g'" using that by metis
  moreover have "length (guid_to_str g) = 36" by (simp add: guid_to_str_def Let_def)
  ultimately show ?thesis by blast
qed

section \<open>The entry array\<close>

lemma entries_crc_whole:
  assumes "\<forall>x\<in>set secs. length x = 256" "unat remain = 512 * length secs"
  shows "entries_crc secs remain crc = calculate_crc32_partial (concat (map le_bytes16 secs)) crc"
  using assms
proof (induction secs arbitrary: remain crc)
  case (Cons x secs)
  show ?case
  proof (cases "secs = []")
    case False
    then have "512 < unat remain" using Cons.prems(2) by (cases secs) simp_all
    then have gt: "512 < remain" by (simp add: word_less_nat_alt)
    then have "unat (remain - 512) = 512 * length secs"
      using Cons.prems(2) by (simp add: unat_sub order.strict_implies_order)
    with gt Cons show ?thesis by (simp add: calculate_crc32_partial_def)
  qed (use Cons.prems in \<open>simp add: calculate_crc32_partial_def\<close>)
qed (simp add: calculate_crc32_partial_def)

lemma concat_grid:
  "concat (map (\<lambda>a. map (f a) [0..<m]) [0..<n]) = map (\<lambda>k. f (k div m) (k mod m)) [0..<n * m]"
proof (induction n)
  case (Suc n)
  have "map (f n) [0..<m] = map (\<lambda>k. f (k div m) (k mod m)) [n * m..<n * m + m]"
    by (rule nth_equalityI) simp_all
  with Suc show ?case by (simp add: upt_add_eq_append [of 0 "n * m" m, unfolded add.commute [of _ m]] add.commute)
qed simp

lemma utf8_ascii_tail: "\<forall>x\<in>set xs. x < 0x80 \<Longrightarrow> \<not> b < 0x80 \<Longrightarrow> \<not> utf8_ok (xs @ [b])"
  by (induction xs) simp_all

section \<open>The contents of a partitioned disk\<close>

definition gpt_header :: "(nat \<Rightarrow> u16 list) \<Rightarrow> PartitionTableHeader" where
  "gpt_header d = PartitionTableHeader_at (le_bytes16 (d 1))"

definition gpt_array_bytes :: "(nat \<Rightarrow> u16 list) \<Rightarrow> u8 list" where
  "gpt_array_bytes d =
     (let h = gpt_header d; total = unat (entries_num h) * unat (entry_size h)
      in concat (map le_bytes16 (sectors d (unat (starting_lba_of_array h)) (total div 512))))"

text \<open>The table is within what the parser handles, and the drive holds it.\<close>

definition gpt_fits :: "nat \<Rightarrow> PartitionTableHeader \<Rightarrow> bool" where
  "gpt_fits blocks h \<longleftrightarrow>
     (let total = unat (entries_num h) * unat (entry_size h)
      in 2 \<le> blocks \<and> unat (header_size h) \<le> 512 \<and> entry_size h \<in> {64, 128, 256} \<and> 512 dvd total \<and> 0 < total \<and>
         total < 256 * 512 \<and> unat (starting_lba_of_array h) < 2 ^ 32 \<and>
         unat (starting_lba_of_array h) + total div 512 \<le> blocks)"

text \<open>Entry \<open>k\<close> of the array, and the name that is printed for it.\<close>

definition gpt_entry :: "(nat \<Rightarrow> u8) \<Rightarrow> (nat \<Rightarrow> u16 list) \<Rightarrow> nat \<Rightarrow> PartitionEntry" where
  "gpt_entry heap d k = PartitionEntry_at (bytes_at heap (gpt_array_bytes d) (k * unat (entry_size (gpt_header d))) 512)"

definition gpt_name :: "(nat \<Rightarrow> u8) \<Rightarrow> (nat \<Rightarrow> u16 list) \<Rightarrow> nat \<Rightarrow> u8 list" where
  "gpt_name heap d k = take (unat (entry_size (gpt_header d)) - 55) (partition_name_and_tail (gpt_entry heap d k))"

definition gpt_used :: "(nat \<Rightarrow> u8) \<Rightarrow> (nat \<Rightarrow> u16 list) \<Rightarrow> nat list" where
  "gpt_used heap d = filter (\<lambda>k. partition_type_guid (gpt_entry heap d k) \<noteq> 0) [0..<unat (entries_num (gpt_header d))]"

definition gpt_printable :: "(nat \<Rightarrow> u8) \<Rightarrow> (nat \<Rightarrow> u16 list) \<Rightarrow> bool" where
  "gpt_printable heap d \<longleftrightarrow> (\<forall>k\<in>set (gpt_used heap d). utf8_ok (map unat (gpt_name heap d k)))"

definition gpt_message_of :: "(nat \<Rightarrow> u8) \<Rightarrow> (nat \<Rightarrow> u16 list) \<Rightarrow> nat \<Rightarrow> gpt_message" where
  "gpt_message_of heap d k =
     (let h = gpt_header d; m = 512 div unat (entry_size h); e = gpt_entry heap d k
      in \<lparr>msg_lba = of_nat (k div m) + starting_lba_of_array h, msg_index = of_nat (k mod m),
          msg_type = guid_to_str (partition_type_guid e), msg_id = guid_to_str (unique_partition_guid e),
          msg_start = starting_lba e, msg_end = ending_lba e, msg_attributes = attributes e,
          msg_name = gpt_name heap d k\<rparr>)"

text \<open>The verdict on a disk.\<close>

definition gpt_verdict :: "(nat \<Rightarrow> u16 list) \<Rightarrow> GptError + unit" where
  "gpt_verdict d =
     (let h = gpt_header d
      in if mbr_invalid (ProtectiveMasterBootRecord_at (le_bytes16 (d 0))) then Inl InvalidProtectiveMBR
         else if gpt_signature h \<noteq> [0x45, 0x46, 0x49, 0x20, 0x50, 0x41, 0x52, 0x54] then Inl InvalidPartitionTableHeader
         else if calculate_crc32 (take (unat (header_size h)) (clear_checksum (le_bytes16 (d 1)))) \<noteq> header_checksum h
         then Inl InvalidTableHeaderChecksum
         else if this_header_lba h \<noteq> 1 then Inl InvalidMyLbaHeader
         else if calculate_crc32 (gpt_array_bytes d) \<noteq> array_checksum h then Inl InvalidEntriesArrayChecksum
         else Inr ())"

lemma gpt_sectors:
  assumes "gpt_fits blocks h"
  shows "unat (entries_num h * entry_size h) = unat (entries_num h) * unat (entry_size h)"
    and "unat (ucast (entries_num h * entry_size h div 512) :: u8) = unat (entries_num h) * unat (entry_size h) div 512"
    and "unat (ucast (starting_lba_of_array h) :: u32) = unat (starting_lba_of_array h)"
    and "(ucast (entries_num h * entry_size h div 512) :: u8) \<noteq> 0"
proof -
  let ?t = "unat (entries_num h) * unat (entry_size h)"
  have t: "?t < 256 * 512" "512 dvd ?t" "0 < ?t" "unat (starting_lba_of_array h) < 2 ^ 32"
    using assms by (simp_all add: gpt_fits_def Let_def)
  then show m: "unat (entries_num h * entry_size h) = ?t" by (simp add: unat_word_ariths)
  have "?t div 512 < 256" using t(1) by (simp add: div_less_iff_less_mult)
  then show n: "unat (ucast (entries_num h * entry_size h div 512) :: u8) = ?t div 512"
    by (simp add: unsigned_ucast_eq unat_div m take_bit_nat_eq_self)
  show "unat (ucast (starting_lba_of_array h) :: u32) = unat (starting_lba_of_array h)"
    using t(4) by (simp add: unsigned_ucast_eq take_bit_nat_eq_self)
  have "512 \<le> ?t" using t(2,3) by (rule dvd_imp_le)
  then have "?t div 512 \<noteq> 0" by simp
  then show "(ucast (entries_num h * entry_size h div 512) :: u8) \<noteq> 0" using n by (metis unat_0)
qed

lemma gpt_entry_at:
  assumes "entry_size h \<in> {64, 128, 256}" and m: "m = 512 div unat (entry_size h)"
  shows "512 * (k div m) + 2 * unat (of_nat (k mod m) * entry_size h div 2) = k * unat (entry_size h)"
    and "unat (entry_size h - 0x38 + 1) = unat (entry_size h) - 55" "unat (entry_size h) - 55 < 456"
proof -
  define e where "e = unat (entry_size h)"
  have e: "even e" "e * m = 512" "e \<le> 256" "0 < m" using assms by (auto simp: e_def)
  have "k mod m < m" using e(4) by simp
  then have "k mod m * e < 512" using e(2) by (metis mult.commute mult_less_cancel2 e(4) nat_0_less_mult_iff zero_less_numeral)
  then have "unat (of_nat (k mod m) * entry_size h) = k mod m * e"
    by (simp add: unat_word_ariths unat_of_nat e_def [symmetric] mod_mult_left_eq)
  then have "2 * unat (of_nat (k mod m) * entry_size h div 2) = k mod m * e"
    using e(1) by (simp add: unat_div)
  moreover have "512 * (k div m) + k mod m * e = (k div m * m + k mod m) * e"
    by (simp only: e(2) [symmetric] add_mult_distrib add_mult_distrib2 mult_ac)
  ultimately show "512 * (k div m) + 2 * unat (of_nat (k mod m) * entry_size h div 2) = k * unat (entry_size h)"
    by (simp add: e_def [symmetric])
  show "unat (entry_size h - 0x38 + 1) = unat (entry_size h) - 55" "unat (entry_size h) - 55 < 456"
    using assms(1) by auto
qed

lemma log_entry_grid:
  assumes fits: "gpt_fits blocks (gpt_header d)" and ok: "gpt_printable heap d" and k: "k < unat (entries_num (gpt_header d))"
    and m: "m = 512 div unat (entry_size (gpt_header d))"
  shows "log_entry (gpt_header d) heap (gpt_array_bytes d) (k div m) (of_nat (k mod m)) =
    Done (if partition_type_guid (gpt_entry heap d k) = 0 then None else Some (gpt_message_of heap d k))"
proof -
  have e: "entry_size (gpt_header d) \<in> {64, 128, 256}" using fits by (simp add: gpt_fits_def Let_def)
  note at = gpt_entry_at [OF e m]
  have len: "length (partition_name_and_tail (gpt_entry heap d k)) = 456"
    by (simp add: gpt_entry_def PartitionEntry_at_def)
  have "utf8_ok (map unat (gpt_name heap d k))" if "partition_type_guid (gpt_entry heap d k) \<noteq> 0"
    using ok k that by (simp add: gpt_printable_def gpt_used_def)
  then show ?thesis
    unfolding log_entry_def Let_def at(1,2) gpt_entry_def [symmetric] gpt_name_def [symmetric]
    using len at(3) by (simp add: gpt_message_of_def Let_def m gpt_name_def)
qed

lemma map_filter_if: "List.map_filter id (map (\<lambda>k. if P k then None else Some (f k)) ks) = map f (filter (\<lambda>k. \<not> P k) ks)"
  by (induction ks) (simp_all add: map_filter_simps)

lemma log_entries_all:
  assumes fits: "gpt_fits blocks (gpt_header d)" and ok: "gpt_printable heap d"
  shows "log_entries (gpt_header d) heap
      (sectors d (unat (starting_lba_of_array (gpt_header d)))
        (unat (entries_num (gpt_header d)) * unat (entry_size (gpt_header d)) div 512)) =
    Done (map (gpt_message_of heap d) (gpt_used heap d))"
proof -
  define h m where "h = gpt_header d" and "m = 512 div unat (entry_size h)"
  define e n where "e = unat (entry_size h)" and "n = unat (entries_num h) * e div 512"
  have es: "entry_size h \<in> {64, 128, 256}" and dvd: "512 dvd unat (entries_num h) * e"
    using fits by (simp_all add: gpt_fits_def Let_def h_def e_def)
  then have e: "e * m = 512" "0 < m" "entry_size h \<noteq> 0" "unat (512 div entry_size h) = m"
    by (auto simp: e_def m_def unat_div)
  have "n * 512 = unat (entries_num h) * e" using dvd by (simp add: n_def)
  then have "n * m * e = unat (entries_num h) * e" using e(1) by (simp add: mult.assoc mult.commute [of m e])
  then have nm: "n * m = unat (entries_num h)" using e(1) by (metis mult_cancel2 mult_is_0 zero_neq_numeral)
  let ?secs = "sectors d (unat (starting_lba_of_array h)) n"
  have arr: "concat (map le_bytes16 ?secs) = gpt_array_bytes d"
    by (simp add: gpt_array_bytes_def Let_def h_def n_def e_def)
  define g where "g = (\<lambda>k. if partition_type_guid (gpt_entry heap d k) = 0 then None else Some (gpt_message_of heap d k))"
  have round: "log_entry h heap (gpt_array_bytes d) idx (of_nat i) = Done (g (idx * m + i))" if "idx < n" "i < m" for idx i
  proof -
    have "(idx * m + i) div m = idx" "(idx * m + i) mod m = i" using that(2) by simp_all
    moreover have "idx * m + i < n * m"
    proof -
      have "idx * m + i < Suc idx * m" using that(2) by simp
      also have "\<dots> \<le> n * m" using that(1) by (intro mult_le_mono1) simp
      finally show ?thesis .
    qed
    ultimately show ?thesis
      using log_entry_grid [OF fits ok, of "idx * m + i" m] nm by (simp add: h_def m_def g_def)
  qed
  have "mapO (\<lambda>idx. mapO (\<lambda>i. log_entry h heap (gpt_array_bytes d) idx (of_nat i)) [0..<m]) [0..<n] =
      Done (map (\<lambda>idx. map (\<lambda>i. g (idx * m + i)) [0..<m]) [0..<n])"
    by (intro mapO_Done) (simp_all add: round)
  moreover have "concat (map (\<lambda>idx. map (\<lambda>i. g (idx * m + i)) [0..<m]) [0..<n]) = map g [0..<n * m]"
    using concat_grid [of "\<lambda>idx i. g (idx * m + i)" m n] by simp
  moreover have "length ?secs = n" by (simp add: sectors_def)
  ultimately have "log_entries h heap ?secs = Done (List.map_filter id (map g [0..<n * m]))"
    using e(3,4) by (simp add: log_entries_def arr)
  then show ?thesis unfolding nm by (simp add: gpt_used_def g_def map_filter_if h_def n_def e_def)
qed

context block_device
begin

lemma read_sector_content:
  assumes "content s d" "unat lba < blocks"
  shows "\<exists>s'. read_sector read_blocks msg lba s = Done (le_bytes16 (d (unat lba)), s') \<and> content s' d"
  using read_law [of s d 1 lba] assms by (auto simp: read_sector_def sectors_def)

lemma parse_gpt_content:
  assumes s: "content s d" and fits: "gpt_fits blocks (gpt_header d)" and ok: "gpt_printable heap d"
  shows "\<exists>s'. parse_gpt read_blocks stack heap s =
      Done (gpt_verdict d, if gpt_verdict d = Inr () then map (gpt_message_of heap d) (gpt_used heap d) else [], s') \<and>
    content s' d"
proof -
  let ?h = "gpt_header d"
  let ?n = "unat (entries_num ?h) * unat (entry_size ?h) div 512"
  have b: "2 \<le> blocks" "unat (header_size ?h) \<le> 512" "unat (starting_lba_of_array ?h) + ?n \<le> blocks"
    "512 dvd unat (entries_num ?h) * unat (entry_size ?h)"
    using fits by (simp_all add: gpt_fits_def Let_def)
  obtain s0 where s0: "read_sector read_blocks ''Failed to read LBA 0'' 0 s = Done (le_bytes16 (d 0), s0)" "content s0 d"
    using read_sector_content [OF s, of 0 "''Failed to read LBA 0''"] b(1) by auto
  obtain s1 where s1: "read_sector read_blocks ''Failed to read LBA 1'' 1 s0 = Done (le_bytes16 (d 1), s1)" "content s1 d"
    using read_sector_content [OF s0(2), of 1 "''Failed to read LBA 1''"] b(1) by auto
  note sec = gpt_sectors [OF fits]
  obtain s2 where s2: "read_blocks (ucast (starting_lba_of_array ?h)) (ucast (entries_num ?h * entry_size ?h div 512)) s1 =
      Done (Inr (sectors d (unat (starting_lba_of_array ?h)) ?n), s2)" "content s2 d"
    using read_law [OF s1(2) sec(4), of "ucast (starting_lba_of_array ?h)"] b(3) by (auto simp: sec)
  have len: "length (clear_checksum (le_bytes16 (d 1))) = 512"
    using content_length [OF s] by (simp add: clear_checksum_def)
  have hdr: "bytes_at stack (clear_checksum (le_bytes16 (d 1))) 0 (unat (header_size ?h)) =
      take (unat (header_size ?h)) (clear_checksum (le_bytes16 (d 1)))"
    using bytes_at_inside [of 0 "unat (header_size ?h)" "clear_checksum (le_bytes16 (d 1))"] b(2) len by simp
  have secs: "\<forall>x\<in>set (sectors d (unat (starting_lba_of_array ?h)) ?n). length x = 256"
    "unat (entries_num ?h * entry_size ?h) = 512 * length (sectors d (unat (starting_lba_of_array ?h)) ?n)"
    using content_length [OF s] b(4) by (simp_all add: sectors_def sec(1))
  have crc: "NOT (entries_crc (sectors d (unat (starting_lba_of_array ?h)) ?n) (entries_num ?h * entry_size ?h) 0xFFFFFFFF) =
      calculate_crc32 (gpt_array_bytes d)"
    unfolding entries_crc_whole [OF secs]
    by (simp only: gpt_array_bytes_def Let_def calculate_crc32_def calculate_crc32_partial_def)
  have h: "PartitionTableHeader_at (le_bytes16 (d 1)) = ?h" by (simp add: gpt_header_def)
  note log = log_entries_all [OF fits ok]
  define c1 c2 c3 c4 c5 where "c1 = mbr_invalid (ProtectiveMasterBootRecord_at (le_bytes16 (d 0)))"
    and "c2 = (gpt_signature ?h \<noteq> [0x45, 0x46, 0x49, 0x20, 0x50, 0x41, 0x52, 0x54])"
    and "c3 = (calculate_crc32 (take (unat (header_size ?h)) (clear_checksum (le_bytes16 (d 1)))) \<noteq> header_checksum ?h)"
    and "c4 = (this_header_lba ?h \<noteq> 1)" and "c5 = (array_checksum ?h \<noteq> calculate_crc32 (gpt_array_bytes d))"
  note c_defs = c1_def c2_def c3_def c4_def c5_def
  have v: "gpt_verdict d = (if c1 then Inl InvalidProtectiveMBR else if c2 then Inl InvalidPartitionTableHeader
      else if c3 then Inl InvalidTableHeaderChecksum else if c4 then Inl InvalidMyLbaHeader
      else if c5 then Inl InvalidEntriesArrayChecksum else Inr ())"
    by (simp only: gpt_verdict_def Let_def c_defs eq_commute [of "array_checksum ?h"])
  have p: "parse_gpt read_blocks stack heap s = (if c1 then Done (Inl InvalidProtectiveMBR, [], s0)
      else if c2 then Done (Inl InvalidPartitionTableHeader, [], s1) else if c3 then Done (Inl InvalidTableHeaderChecksum, [], s1)
      else if c4 then Done (Inl InvalidMyLbaHeader, [], s1)
      else if c5 then Done (Inl InvalidEntriesArrayChecksum, [], s2)
      else Done (Inr (), map (gpt_message_of heap d) (gpt_used heap d), s2))"
    by (simp only: parse_gpt_def s0(1) s1(1) s2(1) bindO.simps prod.case Let_def expect.simps h hdr crc log c_defs cong: if_cong)
  show ?thesis unfolding p v using s0(2) s1(2) s2(2) by simp
qed

end

section \<open>Properties\<close>


text \<open>
  The printed name is one byte longer than the name field: for entries of 128 bytes it ends with the
  first byte of the next entry. If that byte is not ASCII, the parser panics on a table whose name is plain ASCII.
\<close>

theorem gpt_name_runs_over:
  assumes "entry_size header = 128" "i < 4" "512 * idx + 128 * i + 128 < length array"
    and "partition_type_guid (PartitionEntry_at (bytes_at heap array (512 * idx + 128 * i) 512)) \<noteq> 0"
    and "\<forall>x\<in>set (take 72 (drop (512 * idx + 128 * i + 56) array)). unat x < 0x80"
    and "0x80 \<le> unat (array ! (512 * idx + 128 * i + 128))"
  shows "log_entry header heap array idx (of_nat i) = Panic ''called `Result::unwrap()` on an `Err` value''"
proof -
  define off where "off = 512 * idx + 128 * i"
  have "unat (of_nat i * entry_size header div 2) = 64 * i"
    using assms(1,2) by (simp add: unat_div unat_word_ariths unat_of_nat)
  then have off: "512 * idx + 2 * unat (of_nat i * entry_size header div 2) = off" by (simp add: off_def)
  let ?name = "take 456 (drop 56 (bytes_at heap array off 512))"
  have "take 73 ?name = take 72 (drop (off + 56) array) @ [array ! (off + 128)]"
  proof (rule nth_equalityI)
    fix k assume "k < length (take 73 ?name)"
    then consider "k < 72" | "k = 72" by fastforce
    then show "take 73 ?name ! k = (take 72 (drop (off + 56) array) @ [array ! (off + 128)]) ! k"
      using assms(3) by cases (simp_all add: bytes_at_def nth_append off_def algebra_simps)
  qed (use assms(3) in \<open>simp add: off_def\<close>)
  then have "\<not> utf8_ok (map unat (take 73 ?name))"
    using utf8_ascii_tail [of "map unat (take 72 (drop (off + 56) array))" "unat (array ! (off + 128))"] assms(5,6)
    by (simp add: off_def)
  moreover have "length ?name = 456" by simp
  ultimately show ?thesis
    using assms(1,4) unfolding log_entry_def Let_def off by (simp add: PartitionEntry_at_def off_def)
qed

section \<open>A sample disk\<close>

definition mbr_sample :: "u8 list" where
  "mbr_sample = replicate 446 0 @ [0, 0, 2, 0] @ [0xee] @ [0, 0, 0] @ le_bytes 4 (1 :: u32) @ le_bytes 4 (99 :: u32) @ replicate 48 0 @ [0x55, 0xaa]"

definition array_sample :: "u8 list" where
  "array_sample = le_bytes 16 (1 :: u128) @ le_bytes 16 (2 :: u128) @ le_bytes 8 (34 :: u64) @ le_bytes 8 (90 :: u64) @
     le_bytes 8 (0 :: u64) @ replicate 72 0x41 @ replicate 384 0"

definition header_sample :: "u32 \<Rightarrow> u8 list" where
  "header_sample crc = [0x45, 0x46, 0x49, 0x20, 0x50, 0x41, 0x52, 0x54] @ le_bytes 4 (0x10000 :: u32) @ le_bytes 4 (92 :: u32) @
     le_bytes 4 crc @ le_bytes 4 (0 :: u32) @ le_bytes 8 (1 :: u64) @ le_bytes 8 (99 :: u64) @ le_bytes 8 (34 :: u64) @
     le_bytes 8 (90 :: u64) @ le_bytes 16 (5 :: u128) @ le_bytes 8 (2 :: u64) @ le_bytes 4 (4 :: u32) @ le_bytes 4 (128 :: u32) @
     le_bytes 4 (calculate_crc32 array_sample) @ replicate 420 0"

definition gpt_sample :: "nat \<Rightarrow> u16 list" where
  "gpt_sample n =
     (if n = 0 then words16 mbr_sample
      else if n = 1 then words16 (header_sample (calculate_crc32 (take 92 (header_sample 0))))
      else if n = 2 then words16 array_sample else replicate 256 0)"

lemma length_samples [simp]: "length mbr_sample = 512" "length array_sample = 512" "length (header_sample crc) = 512"
  by (simp_all add: mbr_sample_def array_sample_def header_sample_def)

lemma gpt_sample_bytes:
  "le_bytes16 (gpt_sample 0) = mbr_sample"
  "le_bytes16 (gpt_sample 1) = header_sample (calculate_crc32 (take 92 (header_sample 0)))"
  "le_bytes16 (gpt_sample 2) = array_sample" "length (gpt_sample n) = 256"
  by (simp_all add: gpt_sample_def le_bytes16_words16 length_words16)

lemma header_sample_fields:
  "PartitionTableHeader_at (header_sample crc) =
    \<lparr>gpt_signature = [0x45, 0x46, 0x49, 0x20, 0x50, 0x41, 0x52, 0x54], gpt_revision = 0x10000, header_size = 92, header_checksum = crc,
     gpt_reserved = 0, this_header_lba = 1, alternate_header_lba = 99, first_usable_block = 34, last_usable_block = 90,
     disk_guid = 5, starting_lba_of_array = 2, entries_num = 4, entry_size = 128, array_checksum = calculate_crc32 array_sample,
     reserved_tail = replicate 420 0\<rparr>"
  unfolding PartitionTableHeader_at_def header_sample_def
  by (simp add: le_field_skip le_field_here le_field_Cons)

lemma mbr_sample_valid: "\<not> mbr_invalid (ProtectiveMasterBootRecord_at mbr_sample)"
proof -
  have f: "le_field mbr_sample 446 1 = (0 :: u8)" "take 3 (drop 447 mbr_sample) = [0, 2, 0]" "le_field mbr_sample 450 1 = (0xee :: u8)"
    "le_field mbr_sample 454 4 = (1 :: u32)" "take 2 (drop 510 mbr_sample) = [0x55, 0xaa]"
    unfolding mbr_sample_def
    by (simp_all add: le_field_skip le_field_here le_field_Cons le_field_byte [unfolded One_nat_def])
  then show ?thesis by (simp add: mbr_invalid_def ProtectiveMasterBootRecord_at_def PartitionTableEntry_at_def)
qed

lemma gpt_sample_header: "gpt_header gpt_sample = PartitionTableHeader_at (header_sample (calculate_crc32 (take 92 (header_sample 0))))"
  unfolding gpt_header_def gpt_sample_bytes ..

lemma gpt_sample_fits: "gpt_fits 100 (gpt_header gpt_sample)"
  by (simp add: gpt_sample_header header_sample_fields gpt_fits_def)

lemma gpt_sample_array: "gpt_array_bytes gpt_sample = array_sample"
  using gpt_sample_bytes(3)
  by (simp add: gpt_array_bytes_def gpt_sample_header header_sample_fields sectors_def upt_rec)

lemma clear_header_sample: "clear_checksum (header_sample crc) = header_sample 0"
  by (simp add: clear_checksum_def header_sample_def le_bytes_def upt_rec)

lemma gpt_sample_verdict: "gpt_verdict gpt_sample = Inr ()"
  using gpt_sample_bytes(1,2) mbr_sample_valid
  by (simp add: gpt_verdict_def Let_def gpt_sample_header header_sample_fields gpt_sample_array clear_header_sample)

lemma le_field_bytes_at:
  assumes "off + o1 + n \<le> length bs" "o1 + n \<le> m"
  shows "le_field (bytes_at heap bs off m) o1 n = le_field bs (off + o1) n"
proof -
  have "take n (drop o1 (bytes_at heap bs off m)) = take n (drop (off + o1) bs)"
    using assms by (intro nth_equalityI) (simp_all add: bytes_at_def ac_simps)
  then show ?thesis by (simp add: le_field_def)
qed

lemma le_field_zeros: "le_field (replicate m 0) off n = 0"
proof -
  have "le_word (replicate k 0) = (0 :: 'a word)" for k by (induction k) simp_all
  then show ?thesis by (simp add: le_field_def)
qed

lemma gpt_sample_types:
  "partition_type_guid (gpt_entry heap gpt_sample 0) = 1" "partition_type_guid (gpt_entry heap gpt_sample 1) = 0"
  "partition_type_guid (gpt_entry heap gpt_sample 2) = 0" "partition_type_guid (gpt_entry heap gpt_sample 3) = 0"
proof -
  have "le_field array_sample 0 16 = (1 :: u128)" "le_field array_sample 128 16 = (0 :: u128)"
    "le_field array_sample 256 16 = (0 :: u128)" "le_field array_sample 384 16 = (0 :: u128)"
    by (simp_all add: array_sample_def le_field_skip le_field_here le_field_zeros)
  then show "partition_type_guid (gpt_entry heap gpt_sample 0) = 1" "partition_type_guid (gpt_entry heap gpt_sample 1) = 0"
    "partition_type_guid (gpt_entry heap gpt_sample 2) = 0" "partition_type_guid (gpt_entry heap gpt_sample 3) = 0"
    by (simp_all add: gpt_entry_def gpt_sample_array gpt_sample_header header_sample_fields PartitionEntry_at_def le_field_bytes_at)
qed

lemma gpt_sample_used: "gpt_used heap gpt_sample = [0]"
proof -
  have n: "unat (entries_num (gpt_header gpt_sample)) = 4" by (simp add: gpt_sample_header header_sample_fields)
  have l: "[0..<4] = [0, 1, 2, 3 :: nat]" by (simp add: upt_rec)
  show ?thesis unfolding gpt_used_def n l using gpt_sample_types [of heap] by simp
qed

lemma utf8_ascii: "\<forall>x\<in>set xs. x < 0x80 \<Longrightarrow> utf8_ok xs"
  by (induction xs) simp_all

lemma gpt_sample_printable: "gpt_printable heap gpt_sample"
proof -
  have "gpt_name heap gpt_sample 0 = take 73 (drop 56 array_sample)"
    by (simp add: gpt_name_def gpt_entry_def gpt_sample_array gpt_sample_header header_sample_fields PartitionEntry_at_def
        drop_take bytes_at_inside)
  also have "\<dots> = replicate 72 0x41 @ [0]" by (simp add: array_sample_def take_replicate)
  finally have "utf8_ok (map unat (gpt_name heap gpt_sample 0))" by (simp add: utf8_ascii)
  then show ?thesis by (simp add: gpt_printable_def gpt_sample_used)
qed

definition ide_with :: "(nat \<Rightarrow> u16 list) \<Rightarrow> ata ide" where
  "ide_with d = ide_sample\<lparr>dev := ata_sample\<lparr>disk := d\<rparr>\<rparr>"

lemma ide_with_content:
  "(\<And>n. length (d n) = 256) \<Longrightarrow> ide_content 5 ata_machine 0x1F0 0x3F4 id device_sample (ide_with d) d"
  using sample_holds
  by (auto simp: ide_content_def ide_with_def device_sample_def has_drive_def ata_ready_def ata_idle_def ata_sample_def)


theorem gpt_name_runs_over_witness:
  "log_entry (PartitionTableHeader_at (header_sample 0)) (\<lambda>_. 0) (take 128 array_sample @ replicate 384 0x80) 0 (of_nat 0) =
    Panic ''called `Result::unwrap()` on an `Err` value''"
proof (rule gpt_name_runs_over)
  let ?a = "take 128 array_sample @ replicate 384 (0x80 :: u8)"
  have "le_field ?a 0 16 = (1 :: u128)" by (simp add: array_sample_def le_field_here)
  then show "partition_type_guid (PartitionEntry_at (bytes_at (\<lambda>_. 0) ?a (512 * 0 + 128 * 0) 512)) \<noteq> 0"
    by (simp add: PartitionEntry_at_def le_field_bytes_at)
  have "take 72 (drop 56 ?a) = replicate 72 0x41" by (simp add: array_sample_def)
  then show "\<forall>x\<in>set (take 72 (drop (512 * 0 + 128 * 0 + 56) ?a)). unat x < 0x80" by simp
qed (simp_all add: header_sample_fields nth_append)

end
