(* ===== verification/Pci.thy ===== *)
theory Pci
  imports Ide
begin

text \<open>
  The PCI scan (\<^verbatim>\<open>src/pci.rs\<close>): configuration reads through the ports \<open>0xCF8\<close> and \<open>0xCFC\<close>, and the enumeration
  of the devices of bus 0, which starts the IDE driver on every IDE controller. The name of a device type is
  only printed. The hardware state and the IDE channels are the state of \<open>Ide\<close>.
\<close>

section \<open>The code\<close>

definition pci_config_read_word :: "'d bus \<Rightarrow> u8 \<Rightarrow> u8 \<Rightarrow> u8 \<Rightarrow> u8 \<Rightarrow> 'd ide \<Rightarrow> u16 \<times> 'd ide" where
  "pci_config_read_word bus busn device func offset s =
     (let address = push_bit 16 (ucast busn) OR push_bit 11 (ucast device) OR push_bit 8 (ucast func)
            OR (ucast offset AND 0xFC) OR (0x80000000 :: u32);
          config_address_port = Port_new 0xCF8;
          d = Port_write_u32 bus config_address_port address (dev s);
          config_data_port = Port_new 0xCFC;
          (v, d) = Port_read_u32 bus config_data_port d
      in (ucast (drop_bit (unat ((offset AND 2) * 8)) v AND 0xFFFF), s\<lparr>dev := d\<rparr>))"

definition get_device_type :: "u8 \<Rightarrow> u8 \<Rightarrow> u8 \<Rightarrow> string" where
  "get_device_type class_code subclass prog_if =
     (if class_code = 0x6 \<and> subclass = 0x0 then ''Host Bridge''
      else if class_code = 0x6 \<and> subclass = 0x1 then ''ISA Bridge''
      else if class_code = 0x3 \<and> subclass = 0x0 then
        (if prog_if = 0 then ''VGA Controller''
         else if prog_if = 1 then ''VGA 8514-Compatible Controller''
         else ''VGA Compatible Controller'')
      else if class_code = 0x2 \<and> subclass = 0x0 then ''Ethernet Controller''
      else if class_code = 0x1 \<and> subclass = 0x1 then
        (if prog_if = 0x0 then ''IDE ISA Compatibility mode-only controller''
         else if prog_if = 0x5 then ''IDE PCI native mode-only controller''
         else if prog_if = 0xA then ''IDE ISA Compatibility mode controller, supports both channels switched to PCI native mode''
         else if prog_if = 0xF then ''IDE PCI native mode controller, supports both channels switched to ISA compatibility mode''
         else if prog_if = 0x80 then ''IDE ISA Compatibility mode-only controller, supports bus mastering''
         else if prog_if = 0x85 then ''IDE PCI native mode-only controller, supports bus mastering''
         else if prog_if = 0x8A then ''IDE ISA Compatibility mode controller, supports both channels switched to PCI native mode, supports bus mastering''
         else if prog_if = 0x8F then ''IDE PCI native mode controller, supports both channels switched to ISA compatibility mode, supports bus mastering''
         else ''Some IDE Controller'')
      else if class_code = 0x6 \<and> subclass = 0x80 then ''Other bridge''
      else '''')"

record GenericPciDevice =
  pci_bus :: u8
  pci_device :: u8
  pci_function :: u8
  pci_class_code :: u8
  pci_subclass :: u8
  pci_prog_if :: u8
  pci_vendor_id :: u16

datatype PciDevice = Drive IDEDevice | Generic GenericPciDevice

text \<open>\<open>let [a, b] = w.to_be_bytes()\<close>.\<close>

definition be_pair :: "u16 \<Rightarrow> u8 \<times> u8" where
  "be_pair w = (to_be_bytes w ! 0, to_be_bytes w ! 1)"

definition check_function :: "nat \<Rightarrow> 'd bus \<Rightarrow> u8 \<Rightarrow> u8 \<Rightarrow> u8 \<Rightarrow> u16 \<Rightarrow> 'd ide \<Rightarrow> (PciDevice list \<times> 'd ide) outcome" where
  "check_function fuel bus busn device func vendor s =
     (let (_, s) = pci_config_read_word bus busn device func 0xE s;
          (w, s) = pci_config_read_word bus busn device func 0xA s;
          (class, sub) = be_pair w;
          (w, s) = pci_config_read_word bus busn device func 0x8 s;
          (prog, _) = be_pair w
      in if class = 0x1 \<and> sub = 0x1
         then bindO (ide_initialize fuel bus s) (\<lambda>(drives, s). Done (map Drive drives, s))
         else Done ([Generic \<lparr>pci_bus = busn, pci_device = device, pci_function = func, pci_class_code = class,
           pci_subclass = sub, pci_prog_if = prog, pci_vendor_id = vendor\<rparr>], s))"

text \<open>The loop over the functions \<open>1..8\<close> of a multifunction device.\<close>

fun check_functions :: "nat \<Rightarrow> 'd bus \<Rightarrow> u8 \<Rightarrow> u8 \<Rightarrow> u8 list \<Rightarrow> 'd ide \<Rightarrow> (PciDevice list \<times> 'd ide) outcome" where
  "check_functions fuel bus busn device [] s = Done ([], s)"
| "check_functions fuel bus busn device (func # funcs) s =
     (let (vendor, s) = pci_config_read_word bus busn device func 0 s
      in bindO (if vendor \<noteq> 0xFFFF then check_function fuel bus busn device func vendor s else Done ([], s)) (\<lambda>(found, s).
         bindO (check_functions fuel bus busn device funcs s) (\<lambda>(rest, s). Done (found @ rest, s))))"

definition check_device :: "nat \<Rightarrow> 'd bus \<Rightarrow> u8 \<Rightarrow> u8 \<Rightarrow> 'd ide \<Rightarrow> (PciDevice list \<times> 'd ide) outcome" where
  "check_device fuel bus busn device s =
     (let (vendor, s) = pci_config_read_word bus busn device 0 0 s
      in if vendor = 0xFFFF then Done ([], s)
         else let (w, s) = pci_config_read_word bus busn device 0 0xE s;
                  (_, header_type) = be_pair w
              in if header_type AND 0x80 \<noteq> 0
                 then let (_, s) = pci_config_read_word bus busn device 0 0xA s
                      in check_functions fuel bus busn device [1, 2, 3, 4, 5, 6, 7] s
                 else check_function fuel bus busn device 0 vendor s)"

text \<open>The loop over the devices.\<close>

fun check_devices :: "nat \<Rightarrow> 'd bus \<Rightarrow> u8 list \<Rightarrow> 'd ide \<Rightarrow> (PciDevice list \<times> 'd ide) outcome" where
  "check_devices fuel bus [] s = Done ([], s)"
| "check_devices fuel bus (device # devices) s =
     bindO (check_device fuel bus 0 device s) (\<lambda>(found, s).
     bindO (check_devices fuel bus devices s) (\<lambda>(rest, s). Done (found @ rest, s)))"

definition init_pci :: "nat \<Rightarrow> 'd bus \<Rightarrow> 'd ide \<Rightarrow> (PciDevice list \<times> 'd ide) outcome" where
  "init_pci fuel bus s =
     (let (w, s) = pci_config_read_word bus 0 0 0 0xE s;
          (_, header_type) = be_pair w
      in if header_type AND 0x80 = 0 then check_devices fuel bus (map of_nat [0..<32]) s
         else Panic ''not implemented'')"

section \<open>The IDE driver and the rest of the hardware\<close>

text \<open>Whatever the port accesses of the IDE driver keep, its initialisation keeps.\<close>

definition bus_keeps :: "'d bus \<Rightarrow> ('d \<Rightarrow> bool) \<Rightarrow> bool" where
  "bus_keeps bus P \<longleftrightarrow> (\<forall>p v d. P d \<longrightarrow> P (bus_out8 bus p v d)) \<and> (\<forall>p d. P d \<longrightarrow> P (snd (bus_in8 bus p d))) \<and>
     (\<forall>p d. P d \<longrightarrow> P (snd (bus_in16 bus p d)))"

lemma ide_write_keeps:
  assumes "bus_keeps bus P" "P (dev s)" shows "P (dev (ide_write bus c reg v s))"
proof -
  have plain: "P (dev (ide_write bus c reg v s))" if "\<not> (0x07 < reg_repr reg \<and> reg_repr reg < 0x0C)" "P (dev s)" for reg v and s :: "'a ide"
    unfolding ide_write_plain [OF that(1)] using assms(1) that(2) by (simp add: bus_keeps_def)
  show ?thesis
  proof (cases "0x07 < reg_repr reg \<and> reg_repr reg < 0x0C")
    case True
    then have "reg \<in> {SecCount1, Lba3, Lba4, Lba5}" by (cases reg) simp_all
    from reg_hob [OF this, of bus c v s] assms show ?thesis by (simp add: bus_keeps_def Let_def)
  qed (use plain assms(2) in blast)
qed

lemma ide_read_keeps:
  assumes "bus_keeps bus P" "P (dev s)" "reg_repr reg < 8" shows "P (dev (snd (ide_read bus c reg s)))"
  using assms by (simp add: bus_keeps_def)

lemma read_words_keeps:
  assumes "bus_keeps bus P" "P d" shows "P (snd (read_words bus port n d))"
  using assms(2) by (induction n arbitrary: d) (use assms(1) in \<open>auto simp: split_def Let_def bus_keeps_def\<close>)

lemma ide_read_buffer_keeps:
  assumes "bus_keeps bus P" "P (dev s)" "ide_read_buffer bus c Data n buf s = Done (b, s')" shows "P (dev s')"
  using assms read_words_keeps [OF assms(1,2)]
  by (auto simp: ide_read_buffer_def Let_def split_def split: if_splits)

lemma wait_identify_keeps:
  assumes "bus_keeps bus P" "P (dev s)" "wait_identify fuel bus c s = Done (e, s')" shows "P (dev s')"
  using assms(2,3)
proof (induction fuel arbitrary: s)
  case (Suc fuel)
  then show ?case using ide_read_keeps [OF assms(1) Suc.prems(1), of CommandAndStatus c]
    by (auto simp: split_def Let_def split: if_splits simp del: ide_read_low)
qed simp

lemma probe_drive_keeps:
  assumes "bus_keeps bus P" "P (dev s)" "probe_drive fuel bus c dr s = Done (r, s')" shows "P (dev s')"
proof -
  define r1 where "r1 = ide_read bus c CommandAndStatus
    (ide_write bus c CommandAndStatus (command_repr Identify) (ide_write bus c HddEvSel (0xA0 OR push_bit 4 (drive_repr dr)) s))"
  have r1: "P (dev (snd r1))"
    unfolding r1_def by (intro ide_read_keeps [OF assms(1)] ide_write_keeps [OF assms(1)] assms(2)) simp
  have run: "(if fst r1 = 0 then Done (None, snd r1)
      else bindO (wait_identify fuel bus c (snd r1)) (\<lambda>(err, s). if err then Done (None, s)
        else bindO (ide_read_buffer bus c Data 256 (replicate 1024 0) s) (\<lambda>(ide_buf, s). Done (Some (identify_device c dr ide_buf), s)))) =
      Done (r, s')"
    using assms(3) unfolding probe_drive_def Let_def split_def r1_def .
  show ?thesis
  proof (cases "fst r1 = 0")
    case False
    with run obtain e s2 where w: "wait_identify fuel bus c (snd r1) = Done (e, s2)"
      and rest: "(if e then Done (None, s2)
        else bindO (ide_read_buffer bus c Data 256 (replicate 1024 0) s2) (\<lambda>(ide_buf, s). Done (Some (identify_device c dr ide_buf), s))) = Done (r, s')"
      by (auto simp: bindO_eq_Done)
    have s2: "P (dev s2)" by (rule wait_identify_keeps [OF assms(1) r1 w])
    show ?thesis
    proof (cases e)
      case False
      with rest obtain b where "ide_read_buffer bus c Data 256 (replicate 1024 0) s2 = Done (b, s')"
        by (auto simp: bindO_eq_Done)
      then show ?thesis by (rule ide_read_buffer_keeps [OF assms(1) s2])
    qed (use rest s2 in simp)
  qed (use run r1 in simp)
qed

lemma probe_drives_keeps:
  assumes "bus_keeps bus P" "P (dev s)" "probe_drives fuel bus ds s = Done (r, s')" shows "P (dev s')"
  using assms(2,3)
proof (induction ds arbitrary: s r)
  case (Cons x ds)
  obtain c dr where "x = (c, dr)" by fastforce
  with Cons show ?case using probe_drive_keeps [OF assms(1)] by (fastforce simp: outcome_simps)
qed simp

lemma ide_initialize_keeps:
  assumes "bus_keeps bus P" "P (dev s)" "ide_initialize fuel bus s = Done (r, s')" shows "P (dev s')"
proof -
  obtain s0 where s0: "dev s0 = dev s"
    and run: "bindO (probe_drives fuel bus [(Primary, Master), (Primary, Slave), (Secondary, Master), (Secondary, Slave)]
        (ide_write bus Secondary ControlAndAltStatus 2 (ide_write bus Primary ControlAndAltStatus 2 s0)))
      (\<lambda>(drives, s). if \<forall>d\<in>set drives. utf8_ok (map unat (model d)) then Done (drives, s) else Panic []) = Done (r, s')"
    by (rule that [OF _ assms(3) [unfolded ide_initialize_def Let_def]]) simp
  have "P (dev (ide_write bus Secondary ControlAndAltStatus 2 (ide_write bus Primary ControlAndAltStatus 2 s0)))"
    using assms(2) s0 by (intro ide_write_keeps [OF assms(1)]) simp
  moreover obtain ds s1 where "probe_drives fuel bus [(Primary, Master), (Primary, Slave), (Secondary, Master), (Secondary, Slave)]
        (ide_write bus Secondary ControlAndAltStatus 2 (ide_write bus Primary ControlAndAltStatus 2 s0)) = Done (ds, s1)" "s' = s1"
    using run unfolding bindO_eq_Done by (auto split: if_splits)
  ultimately show ?thesis using probe_drives_keeps [OF assms(1)] by blast
qed

section \<open>Configuration space\<close>

text \<open>
  The configuration mechanism of the hardware: \<open>conf\<close> gives the registers of the functions, by bus, device, function
  and the offset of the register. A write to \<open>0xCF8\<close> selects a register, and \<open>0xCFC\<close> reads it.
\<close>

type_synonym config_space = "u8 \<Rightarrow> u8 \<Rightarrow> u8 \<Rightarrow> u8 \<Rightarrow> u32"

definition config_register :: "config_space \<Rightarrow> u32 \<Rightarrow> u32" where
  "config_register conf a =
     conf (ucast (drop_bit 16 a)) (ucast (take_bit 5 (drop_bit 11 a))) (ucast (take_bit 3 (drop_bit 8 a))) (ucast a AND 0xFC)"

definition pci_hardware :: "'d bus \<Rightarrow> config_space \<Rightarrow> ('d \<Rightarrow> bool) \<Rightarrow> bool" where
  "pci_hardware bus conf P \<longleftrightarrow> bus_keeps bus P \<and>
     (\<forall>a d. P d \<and> bit a 31 \<longrightarrow>
        (let r = bus_in32 bus 0xCFC (bus_out32 bus 0xCF8 a d) in fst r = config_register conf a \<and> P (snd r)))"

text \<open>The 16-bit word at an even offset.\<close>

definition config_word :: "config_space \<Rightarrow> u8 \<Rightarrow> u8 \<Rightarrow> u8 \<Rightarrow> u8 \<Rightarrow> u16" where
  "config_word conf b d f offset =
     (if bit offset 1 then ucast (drop_bit 16 (conf b d f (offset AND 0xFC))) else ucast (conf b d f (offset AND 0xFC)))"

lemma bit_FC: "bit (0xFC :: int) i \<longleftrightarrow> 2 \<le> i \<and> i < 8"
proof -
  have "(0xFC :: int) = push_bit 2 (mask 6)" by (simp add: mask_eq_exp_minus_1)
  then show ?thesis by (simp only: bit_push_bit_iff bit_mask_iff) auto
qed

lemma bit_FFFF: "bit (0xFFFF :: int) i \<longleftrightarrow> i < 16"
  using bit_mask_iff [of 16 i, where 'a = int] by (simp add: mask_eq_exp_minus_1)

lemma bit_31: "bit (0x80000000 :: int) i \<longleftrightarrow> i = 31"
proof -
  have "(0x80000000 :: int) = push_bit 31 1" by simp
  then show ?thesis by (simp only: bit_push_bit_iff bit_1_iff) auto
qed

lemma config_register_address:
  fixes b d f offset :: u8
  assumes "unat d < 32" "unat f < 8"
  shows "config_register conf (push_bit 16 (ucast b) OR push_bit 11 (ucast d) OR push_bit 8 (ucast f)
      OR (ucast offset AND 0xFC) OR 0x80000000) = conf b d f (offset AND 0xFC)" (is "config_register conf ?a = _")
proof -
  have d: "bit d i \<Longrightarrow> i < 5" and f: "bit f i \<Longrightarrow> i < 3" for i
    using bit_below [of d 5 i] bit_below [of f 3 i] assms by simp_all
  define a where "a = ?a"
  have ba: "bit a j \<longleftrightarrow> 16 \<le> j \<and> j < 32 \<and> bit b (j - 16) \<or> 11 \<le> j \<and> j < 32 \<and> bit d (j - 11) \<or> 8 \<le> j \<and> j < 32 \<and> bit f (j - 8) \<or>
      bit offset j \<and> 2 \<le> j \<and> j < 8 \<or> j = 31" for j
    by (auto simp: a_def bit_simps bit_31 bit_FC dest: bit_imp_le_length)
  have "ucast (drop_bit 16 a) = b"
  proof (rule bit_word_eqI)
    fix i :: nat assume "i < LENGTH(8)"
    then show "bit (ucast (drop_bit 16 a) :: u8) i = bit b i"
      using d [of "5 + i"] f [of "8 + i"] by (auto simp: bit_simps ba)
  qed
  moreover have "ucast (take_bit 5 (drop_bit 11 a)) = d"
  proof (rule bit_word_eqI)
    fix i :: nat assume "i < LENGTH(8)"
    then show "bit (ucast (take_bit 5 (drop_bit 11 a)) :: u8) i = bit d i"
      using d [of i] f [of "3 + i"] by (auto simp: bit_simps ba)
  qed
  moreover have "ucast (take_bit 3 (drop_bit 8 a)) = f"
  proof (rule bit_word_eqI)
    fix i :: nat assume "i < LENGTH(8)"
    then show "bit (ucast (take_bit 3 (drop_bit 8 a)) :: u8) i = bit f i"
      using f [of i] by (auto simp: bit_simps ba)
  qed
  moreover have "ucast a AND 0xFC = offset AND 0xFC"
    by (rule bit_word_eqI) (auto simp: bit_simps ba bit_FC)
  ultimately show ?thesis unfolding a_def [symmetric] by (simp only: config_register_def)
qed

lemma pci_config_read_word_value:
  assumes hw: "pci_hardware bus conf P" and P: "P (dev s)" and "unat d < 32" "unat f < 8"
  shows "fst (pci_config_read_word bus b d f offset s) = config_word conf b d f offset"
    and "P (dev (snd (pci_config_read_word bus b d f offset s)))"
proof -
  let ?a = "push_bit 16 (ucast b) OR push_bit 11 (ucast d) OR push_bit 8 (ucast f) OR (ucast offset AND 0xFC) OR 0x80000000 :: u32"
  let ?r = "bus_in32 bus 0xCFC (bus_out32 bus 0xCF8 ?a (dev s))"
  have "bit ?a 31" by (simp add: bit_or_iff bit_31)
  then have r: "fst ?r = conf b d f (offset AND 0xFC)" "P (snd ?r)"
    using hw P config_register_address [OF assms(3,4), of conf b offset] by (simp_all add: pci_hardware_def Let_def)
  show "P (dev (snd (pci_config_read_word bus b d f offset s)))"
    using r(2) by (simp add: pci_config_read_word_def split_def Let_def)
  have shift: "unat ((offset AND 2) * 8) = (if bit offset 1 then 16 else 0)"
  proof -
    have "offset AND 2 = (if bit offset 1 then 2 else 0)"
      by (rule bit_word_eqI) (auto simp: bit_simps bit_2_iff)
    then show ?thesis by simp
  qed
  show "fst (pci_config_read_word bus b d f offset s) = config_word conf b d f offset"
    using r(1) unfolding pci_config_read_word_def Let_def split_def port_simps shift config_word_def fst_conv
    by (auto intro!: bit_word_eqI simp: bit_simps bit_FFFF)
qed

section \<open>The devices of a configuration space\<close>

definition config_ide :: "config_space \<Rightarrow> u8 \<Rightarrow> u8 \<Rightarrow> bool" where
  "config_ide conf d f \<longleftrightarrow> be_pair (config_word conf 0 d f 0xA) = (0x1, 0x1)"

definition config_record :: "config_space \<Rightarrow> u8 \<Rightarrow> u8 \<Rightarrow> GenericPciDevice" where
  "config_record conf d f =
     \<lparr>pci_bus = 0, pci_device = d, pci_function = f, pci_class_code = fst (be_pair (config_word conf 0 d f 0xA)),
      pci_subclass = snd (be_pair (config_word conf 0 d f 0xA)), pci_prog_if = fst (be_pair (config_word conf 0 d f 0x8)),
      pci_vendor_id = config_word conf 0 d f 0\<rparr>"

text \<open>The functions of a device that the scan looks at.\<close>

definition config_functions :: "config_space \<Rightarrow> u8 \<Rightarrow> u8 list" where
  "config_functions conf d =
     (if config_word conf 0 d 0 0 = 0xFFFF then []
      else if snd (be_pair (config_word conf 0 d 0 0xE)) AND 0x80 \<noteq> 0
      then filter (\<lambda>f. config_word conf 0 d f 0 \<noteq> 0xFFFF) [1, 2, 3, 4, 5, 6, 7]
      else [0])"

definition config_generics :: "config_space \<Rightarrow> u8 \<Rightarrow> GenericPciDevice list" where
  "config_generics conf d = map (config_record conf d) (filter (\<lambda>f. \<not> config_ide conf d f) (config_functions conf d))"

primrec generic_of :: "PciDevice \<Rightarrow> GenericPciDevice list" where
  "generic_of (Drive d) = []"
| "generic_of (Generic g) = [g]"

definition generics :: "PciDevice list \<Rightarrow> GenericPciDevice list" where
  "generics devs = concat (map generic_of devs)"

lemma generics_simps [simp]: "generics [] = []" "generics (xs @ ys) = generics xs @ generics ys" "generics (map Drive ds) = []"
  "generics [Generic g] = [g]"
  by (simp_all add: generics_def)

text \<open>A scan of some functions: it ends if none is an IDE controller, and what it ends with.\<close>

definition scan_ok :: "('d \<Rightarrow> bool) \<Rightarrow> bool \<Rightarrow> GenericPciDevice list \<Rightarrow> (PciDevice list \<times> 'd ide) outcome \<Rightarrow> bool" where
  "scan_ok P ide gs run \<longleftrightarrow>
     (\<not> ide \<longrightarrow> (\<exists>r. run = Done r)) \<and> (\<forall>devs s. run = Done (devs, s) \<longrightarrow> generics devs = gs \<and> P (dev s))"

lemma scan_ok_seq:
  assumes "scan_ok P i gs m" "\<And>s. P (dev s) \<Longrightarrow> scan_ok P j hs (k s)"
  shows "scan_ok P (i \<or> j) (gs @ hs) (bindO m (\<lambda>(found, s). bindO (k s) (\<lambda>(rest, s). Done (found @ rest, s))))"
proof (cases m)
  case (Done r)
  obtain found s where r: "r = (found, s)" by fastforce
  with Done assms(1) have "generics found = gs" "P (dev s)" by (auto simp: scan_ok_def)
  then show ?thesis using Done r assms(1) assms(2) [of s] by (cases "k s") (auto simp: scan_ok_def)
qed (use assms(1) in \<open>auto simp: scan_ok_def\<close>)

lemma check_function_scan:
  assumes hw: "pci_hardware bus conf P" and P: "P (dev s)" and "unat d < 32" "unat f < 8"
    and v: "vendor = config_word conf 0 d f 0"
  shows "scan_ok P (config_ide conf d f) (if config_ide conf d f then [] else [config_record conf d f])
    (check_function fuel bus 0 d f vendor s)"
proof -
  note read = pci_config_read_word_value [OF hw _ assms(3,4)]
  define s1 where "s1 = snd (pci_config_read_word bus 0 d f 0xE s)"
  define s2 where "s2 = snd (pci_config_read_word bus 0 d f 0xA s1)"
  define s3 where "s3 = snd (pci_config_read_word bus 0 d f 0x8 s2)"
  have P3: "P (dev s1)" "P (dev s2)" "P (dev s3)"
    using read(2) P by (simp_all add: s1_def s2_def s3_def)
  have w: "fst (pci_config_read_word bus 0 d f 0xA s1) = config_word conf 0 d f 0xA"
    "fst (pci_config_read_word bus 0 d f 0x8 s2) = config_word conf 0 d f 0x8"
    using read(1) P3 by simp_all
  have run: "check_function fuel bus 0 d f vendor s =
      (if config_ide conf d f then bindO (ide_initialize fuel bus s3) (\<lambda>(drives, s). Done (map Drive drives, s))
       else Done ([Generic (config_record conf d f)], s3))"
    unfolding check_function_def Let_def split_def s1_def [symmetric] s2_def [symmetric] s3_def [symmetric] w
    by (simp add: config_ide_def config_record_def v prod_eq_iff)
  have "P (dev s')" if "ide_initialize fuel bus s3 = Done (ds, s')" for ds s'
    using ide_initialize_keeps [of bus P, OF _ P3(3) that] hw by (simp add: pci_hardware_def)
  then show ?thesis
    unfolding run using P3(3) by (auto simp: scan_ok_def bindO_eq_Done)
qed

lemma check_functions_scan:
  assumes hw: "pci_hardware bus conf P" and d: "unat d < 32" and "P (dev s)" and "\<forall>f\<in>set fs. unat f < 8"
  shows "scan_ok P (\<exists>f\<in>set fs. config_word conf 0 d f 0 \<noteq> 0xFFFF \<and> config_ide conf d f)
    (map (config_record conf d) (filter (\<lambda>f. config_word conf 0 d f 0 \<noteq> 0xFFFF \<and> \<not> config_ide conf d f) fs))
    (check_functions fuel bus 0 d fs s)"
  using assms(3,4)
proof (induction fs arbitrary: s)
  case Nil
  then show ?case by (simp add: scan_ok_def)
next
  case (Cons f fs)
  let ?r = "pci_config_read_word bus 0 d f 0 s"
  have f: "unat f < 8" and fs: "\<forall>f\<in>set fs. unat f < 8" using Cons.prems(2) by simp_all
  note r = pci_config_read_word_value [OF hw Cons.prems(1) d f, of 0 0]
  let ?v = "config_word conf 0 d f 0"
  define m where "m = (if fst ?r \<noteq> 0xFFFF then check_function fuel bus 0 d f (fst ?r) (snd ?r) else Done ([], snd ?r))"
  have m: "scan_ok P (?v \<noteq> 0xFFFF \<and> config_ide conf d f)
      (if ?v \<noteq> 0xFFFF \<and> \<not> config_ide conf d f then [config_record conf d f] else []) m"
    using check_function_scan [OF hw r(2) d f refl, of fuel] r by (auto simp: scan_ok_def m_def)
  have "check_functions fuel bus 0 d (f # fs) s =
      bindO m (\<lambda>(found, s). bindO (check_functions fuel bus 0 d fs s) (\<lambda>(rest, s). Done (found @ rest, s)))"
    unfolding check_functions.simps Let_def split_def m_def ..
  moreover have "map (config_record conf d) (filter (\<lambda>f. config_word conf 0 d f 0 \<noteq> 0xFFFF \<and> \<not> config_ide conf d f) (f # fs)) =
      (if ?v \<noteq> 0xFFFF \<and> \<not> config_ide conf d f then [config_record conf d f] else []) @
      map (config_record conf d) (filter (\<lambda>f. config_word conf 0 d f 0 \<noteq> 0xFFFF \<and> \<not> config_ide conf d f) fs)" by simp
  moreover have "(\<exists>f\<in>set (f # fs). config_word conf 0 d f 0 \<noteq> 0xFFFF \<and> config_ide conf d f) \<longleftrightarrow>
      ?v \<noteq> 0xFFFF \<and> config_ide conf d f \<or> (\<exists>f\<in>set fs. config_word conf 0 d f 0 \<noteq> 0xFFFF \<and> config_ide conf d f)" by simp
  ultimately show ?case using scan_ok_seq [OF m Cons.IH [OF _ fs]] by (simp only:)
qed

lemma check_device_scan:
  assumes hw: "pci_hardware bus conf P" and P: "P (dev s)" and d: "unat d < 32"
  shows "scan_ok P (\<exists>f\<in>set (config_functions conf d). config_ide conf d f) (config_generics conf d) (check_device fuel bus 0 d s)"
proof -
  note read = pci_config_read_word_value [OF hw _ d, of _ 0, simplified]
  define s1 where "s1 = snd (pci_config_read_word bus 0 d 0 0 s)"
  define s2 where "s2 = snd (pci_config_read_word bus 0 d 0 0xE s1)"
  define s3 where "s3 = snd (pci_config_read_word bus 0 d 0 0xA s2)"
  have P3: "P (dev s1)" "P (dev s2)" "P (dev s3)" using read(2) P by (simp_all add: s1_def s2_def s3_def)
  have w: "fst (pci_config_read_word bus 0 d 0 0 s) = config_word conf 0 d 0 0"
    "fst (pci_config_read_word bus 0 d 0 0xE s1) = config_word conf 0 d 0 0xE" using read(1) P P3 by simp_all
  have run: "check_device fuel bus 0 d s =
      (if config_word conf 0 d 0 0 = 0xFFFF then Done ([], s1)
       else if snd (be_pair (config_word conf 0 d 0 0xE)) AND 0x80 \<noteq> 0 then check_functions fuel bus 0 d [1, 2, 3, 4, 5, 6, 7] s3
       else check_function fuel bus 0 d 0 (config_word conf 0 d 0 0) s2)"
    unfolding check_device_def Let_def split_def s1_def [symmetric] s2_def [symmetric] s3_def [symmetric] w ..
  let ?multi = "snd (be_pair (config_word conf 0 d 0 0xE)) AND 0x80 \<noteq> 0"
  consider "config_word conf 0 d 0 0 = 0xFFFF" | "config_word conf 0 d 0 0 \<noteq> 0xFFFF" ?multi
    | "config_word conf 0 d 0 0 \<noteq> 0xFFFF" "\<not> ?multi" by blast
  then show ?thesis
  proof cases
    case 1
    then show ?thesis using P3(1) unfolding run by (simp add: config_functions_def config_generics_def scan_ok_def)
  next
    case 2
    define fs :: "u8 list" where "fs = [1, 2, 3, 4, 5, 6, 7]"
    have "scan_ok P (\<exists>f\<in>set fs. config_word conf 0 d f 0 \<noteq> 0xFFFF \<and> config_ide conf d f)
      (map (config_record conf d) (filter (\<lambda>f. config_word conf 0 d f 0 \<noteq> 0xFFFF \<and> \<not> config_ide conf d f) fs))
      (check_functions fuel bus 0 d fs s3)"
      by (rule check_functions_scan [OF hw d P3(3)]) (simp add: fs_def)
    moreover have "config_functions conf d = filter (\<lambda>f. config_word conf 0 d f 0 \<noteq> 0xFFFF) fs"
      using 2 by (simp add: config_functions_def fs_def)
    ultimately show ?thesis
      using 2 unfolding run fs_def [symmetric] config_generics_def by (simp add: Bex_def conj_ac)
  next
    case 3
    then have "config_functions conf d = [0]" by (simp add: config_functions_def)
    then show ?thesis
      using 3 check_function_scan [OF hw P3(2) d _ refl, of 0 fuel] unfolding run config_generics_def by (auto simp: scan_ok_def)
  qed
qed

lemma check_devices_scan:
  assumes hw: "pci_hardware bus conf P" and "P (dev s)" and "\<forall>d\<in>set ds. unat d < 32"
  shows "scan_ok P (\<exists>d\<in>set ds. \<exists>f\<in>set (config_functions conf d). config_ide conf d f)
    (concat (map (config_generics conf) ds)) (check_devices fuel bus ds s)"
  using assms(2,3)
proof (induction ds arbitrary: s)
  case (Cons d ds)
  then have d: "unat d < 32" and ds: "\<forall>d\<in>set ds. unat d < 32" by simp_all
  from scan_ok_seq [OF check_device_scan [OF hw Cons.prems(1) d, of fuel] Cons.IH [OF _ ds]] show ?case by simp
qed (simp add: scan_ok_def)

section \<open>Properties\<close>


section \<open>A sample machine\<close>

text \<open>A host bridge as the only device; the state is the selected address.\<close>

definition conf_sample :: config_space where
  "conf_sample b d f r =
     (if d = 0 \<and> f = 0 then if r = 0 then 0x12378086 else if r = 8 then 0x06000002 else 0 else 0xFFFFFFFF)"

definition pci_sample :: "u32 bus" where
  "pci_sample =
     \<lparr>bus_out8 = \<lambda>p v d. d, bus_out16 = \<lambda>p v d. d, bus_out32 = \<lambda>p v d. if p = 0xCF8 then v else d,
      bus_in8 = \<lambda>p d. (0, d), bus_in16 = \<lambda>p d. (0, d), bus_in32 = \<lambda>p d. (if p = 0xCFC then config_register conf_sample d else 0, d)\<rparr>"

lemma pci_sample_hardware: "pci_hardware pci_sample conf_sample (\<lambda>_. True)"
  by (simp add: pci_hardware_def bus_keeps_def pci_sample_def)

lemma conf_sample_functions: "config_functions conf_sample d = (if d = 0 then [0] else [])"
  by (simp add: config_functions_def config_word_def conf_sample_def be_pair_def to_be_bytes_def)

lemma conf_sample_host: "\<not> config_ide conf_sample 0 0"
  by (simp add: config_ide_def config_word_def conf_sample_def be_pair_def to_be_bytes_def)


end
