(* ===== verification/Chrono.thy ===== *)
theory Chrono
  imports Port
begin

text \<open>
  The real-time clock (\<^verbatim>\<open>src/chrono.rs\<close>). The constructor of the \<open>chrono\<close> crate is the parameter \<open>ymd_hms\<close>,
  which is \<open>None\<close> for an invalid date or time. Both waiting loops run with fuel.
\<close>

section \<open>The code\<close>

definition update_in_progress :: "'d bus \<Rightarrow> 'd \<Rightarrow> bool \<times> 'd" where
  "update_in_progress bus d =
     (let cmos_control_port = Port_new 0x70; cmos_data_port = Port_new 0x71;
          d = Port_write bus cmos_control_port 0x0A d;
          (v, d) = Port_read bus cmos_data_port d
      in (v AND 0x80 \<noteq> 0, d))"

definition get_rtc_register :: "'d bus \<Rightarrow> u8 \<Rightarrow> 'd \<Rightarrow> u8 \<times> 'd" where
  "get_rtc_register bus reg d =
     (let cmos_control_port = Port_new 0x70; cmos_data_port = Port_new 0x71;
          d = Port_write bus cmos_control_port reg d
      in Port_read bus cmos_data_port d)"

fun wait_update :: "nat \<Rightarrow> 'd bus \<Rightarrow> 'd \<Rightarrow> 'd outcome" where
  "wait_update 0 bus d = Hang"
| "wait_update (Suc fuel) bus d =
     (let (busy, d) = update_in_progress bus d in if busy then wait_update fuel bus d else Done d)"

record rtc_time =
  second :: u8
  minute :: u8
  hour :: u8
  day :: u8
  month :: u8
  year :: u8
  century :: u8

definition read_registers :: "'d bus \<Rightarrow> 'd \<Rightarrow> rtc_time \<times> 'd" where
  "read_registers bus d =
     (let (second, d) = get_rtc_register bus 0x00 d;
          (minute, d) = get_rtc_register bus 0x02 d;
          (hour, d) = get_rtc_register bus 0x04 d;
          (day, d) = get_rtc_register bus 0x07 d;
          (month, d) = get_rtc_register bus 0x08 d;
          (year, d) = get_rtc_register bus 0x09 d;
          (century, d) = get_rtc_register bus 0x32 d
      in (\<lparr>second = second, minute = minute, hour = hour, day = day, month = month, year = year, century = century\<rparr>, d))"

text \<open>The loop that reads until two readings agree.\<close>

fun read_stable :: "nat \<Rightarrow> nat \<Rightarrow> 'd bus \<Rightarrow> rtc_time \<Rightarrow> 'd \<Rightarrow> (rtc_time \<times> 'd) outcome" where
  "read_stable fuel 0 bus prev d = Hang"
| "read_stable fuel (Suc n) bus prev d =
     bindO (wait_update fuel bus d) (\<lambda>d.
     let (t, d) = read_registers bus d
     in if t = prev then Done (t, d) else read_stable fuel n bus t d)"

definition from_bcd :: "u8 \<Rightarrow> u8" where
  "from_bcd v = (v AND 0x0F) + ((v div 16) * 10)"

definition convert_time :: "u8 \<Rightarrow> rtc_time \<Rightarrow> rtc_time" where
  "convert_time register_b t =
     (let t = (if register_b AND 0x04 = 0 then
            \<lparr>second = from_bcd (second t), minute = from_bcd (minute t),
             hour = ((hour t AND 0x0F) + (((hour t AND 0x70) div 16) * 10)) OR (hour t AND 0x80),
             day = from_bcd (day t), month = from_bcd (month t), year = from_bcd (year t), century = from_bcd (century t)\<rparr>
          else t)
      in if register_b AND 0x02 = 0 \<and> hour t AND 0x80 = 1 then t\<lparr>hour := ((hour t AND 0x7F) + 12) mod 24\<rparr> else t)"

definition read_rtc :: "nat \<Rightarrow> 'd bus \<Rightarrow> (int \<Rightarrow> u32 \<Rightarrow> u32 \<Rightarrow> u32 \<Rightarrow> u32 \<Rightarrow> u32 \<Rightarrow> 't option) \<Rightarrow> 'd \<Rightarrow> ('t \<times> 'd) outcome" where
  "read_rtc fuel bus ymd_hms d =
     bindO (wait_update fuel bus d) (\<lambda>d.
     let (t, d) = read_registers bus d in
     bindO (read_stable fuel fuel bus t d) (\<lambda>(t, d).
     let (register_b, d) = get_rtc_register bus 0x0B d;
         t = convert_time register_b t in
     bindO (expect_some [] (ymd_hms (int (unat (century t)) * 100 + int (unat (year t))) (ucast (month t)) (ucast (day t))
       (ucast (hour t)) (ucast (minute t)) (ucast (second t)))) (\<lambda>dt. Done (dt, d))))"

section \<open>A clock\<close>

text \<open>
  The documented hardware: port \<open>0x70\<close> selects one of the registers \<open>regs\<close> and port \<open>0x71\<close> reads it. The clock does
  not tick while it is read, and register \<open>0x0A\<close> says that no update is in progress.
\<close>

definition rtc_hardware :: "'d bus \<Rightarrow> (u8 \<Rightarrow> u8) \<Rightarrow> ('d \<Rightarrow> bool) \<Rightarrow> bool" where
  "rtc_hardware bus regs P \<longleftrightarrow> \<not> bit (regs 0x0A) 7 \<and>
     (\<forall>r d. P d \<longrightarrow> fst (bus_in8 bus 0x71 (bus_out8 bus 0x70 r d)) = regs r \<and> P (snd (bus_in8 bus 0x71 (bus_out8 bus 0x70 r d))))"

definition rtc_snapshot :: "(u8 \<Rightarrow> u8) \<Rightarrow> rtc_time" where
  "rtc_snapshot regs = \<lparr>second = regs 0x00, minute = regs 0x02, hour = regs 0x04, day = regs 0x07, month = regs 0x08,
     year = regs 0x09, century = regs 0x32\<rparr>"

lemma get_rtc_register_value:
  assumes "rtc_hardware bus regs P" "P d"
  shows "fst (get_rtc_register bus r d) = regs r" "P (snd (get_rtc_register bus r d))"
  using assms by (simp_all add: rtc_hardware_def get_rtc_register_def Let_def)

lemma read_registers_value:
  assumes hw: "rtc_hardware bus regs P" and P: "P d"
  shows "fst (read_registers bus d) = rtc_snapshot regs" "P (snd (read_registers bus d))"
  using get_rtc_register_value [OF hw] P
  by (simp_all add: read_registers_def Let_def split_def rtc_snapshot_def)

lemma and_0x80: "v AND 0x80 = (if bit v 7 then 0x80 else 0)" for v :: u8
proof -
  have "(0x80 :: int) = push_bit 7 1" by simp
  then have "bit (0x80 :: int) i \<longleftrightarrow> i = 7" for i by (simp only: bit_push_bit_iff bit_1_iff) auto
  then show ?thesis by (intro bit_word_eqI) (auto simp: bit_simps)
qed

lemma wait_update_done:
  assumes "rtc_hardware bus regs P" "P d" "0 < fuel"
  shows "\<exists>d'. wait_update fuel bus d = Done d' \<and> P d'"
  using assms by (cases fuel) (auto simp: update_in_progress_def Let_def split_def rtc_hardware_def and_0x80)

lemma read_rtc_run:
  assumes hw: "rtc_hardware bus regs P" and P: "P d" and fuel: "0 < fuel"
  shows "\<exists>d'. P d' \<and> read_rtc fuel bus ymd_hms d =
    (let t = convert_time (regs 0x0B) (rtc_snapshot regs) in
     bindO (expect_some [] (ymd_hms (int (unat (century t)) * 100 + int (unat (year t))) (ucast (month t)) (ucast (day t))
       (ucast (hour t)) (ucast (minute t)) (ucast (second t)))) (\<lambda>dt. Done (dt, d')))"
proof -
  obtain d1 where d1: "wait_update fuel bus d = Done d1" "P d1" using wait_update_done [OF hw P fuel] by blast
  note r1 = read_registers_value [OF hw d1(2)]
  obtain d2 where d2: "wait_update fuel bus (snd (read_registers bus d1)) = Done d2" "P d2"
    using wait_update_done [OF hw r1(2) fuel] by blast
  note r2 = read_registers_value [OF hw d2(2)]
  obtain n where n: "fuel = Suc n" using fuel by (cases fuel) auto
  have st: "read_stable fuel fuel bus (rtc_snapshot regs) (snd (read_registers bus d1)) = Done (rtc_snapshot regs, snd (read_registers bus d2))"
    using d2(1) r2(1) n by (simp add: split_def Let_def)
  note r3 = get_rtc_register_value [OF hw r2(2)]
  show ?thesis
    using d1(1) r1(1) st r3 by (intro exI [of _ "snd (get_rtc_register bus 0x0B (snd (read_registers bus d2)))"])
      (simp add: read_rtc_def split_def Let_def)
qed

section \<open>Properties\<close>

text \<open>How the clock stores a number below 100: in binary, or as two decimal digits.\<close>

definition rtc_code :: "bool \<Rightarrow> nat \<Rightarrow> u8" where
  "rtc_code bcd n = of_nat (if bcd then 16 * (n div 10) + n mod 10 else n)"

lemma unat_rtc_code: "n < 100 \<Longrightarrow> unat (rtc_code bcd n) = (if bcd then 16 * (n div 10) + n mod 10 else n)"
proof -
  assume "n < 100"
  then have "n div 10 < 10" "n mod 10 < 10" by simp_all
  then have "16 * (n div 10) + n mod 10 < 256" by linarith
  then show ?thesis using \<open>n < 100\<close> by (simp add: rtc_code_def unat_of_nat)
qed

lemma unat_and_0x0F: "unat (v AND 0x0F) = unat v mod 16" for v :: u8
proof -
  have "v AND 0x0F = take_bit 4 v" by (simp add: take_bit_eq_mask mask_eq_exp_minus_1)
  then show ?thesis by (simp add: take_bit_eq_mod unat_mod)
qed

lemma unat_from_bcd: "unat (from_bcd v) = (unat v mod 16 + unat v div 16 * 10) mod 256"
  by (simp add: from_bcd_def unat_word_ariths unat_and_0x0F unat_div mod_simps)

lemma from_bcd_code: "n < 100 \<Longrightarrow> unat (from_bcd (rtc_code True n)) = n"
proof -
  assume n: "n < 100"
  have "(16 * (n div 10) + n mod 10) mod 16 = n mod 10" "(16 * (n div 10) + n mod 10) div 16 = n div 10" by simp_all
  then show ?thesis using n by (simp only: unat_from_bcd unat_rtc_code if_True) simp
qed

lemma hour_bcd_code:
  assumes "n < 24"
  shows "unat (((rtc_code True n AND 0x0F) + (((rtc_code True n AND 0x70) div 16) * 10)) OR (rtc_code True n AND 0x80)) = n"
proof -
  have "\<forall>n\<in>set [0..<24]. unat (((rtc_code True n AND 0x0F) + (((rtc_code True n AND 0x70) div 16) * 10)) OR (rtc_code True n AND 0x80)) = n"
    by code_simp
  then show ?thesis using assms by simp
qed

lemma never_pm: "\<not> (h AND 0x80 = 1)" for h :: u8
  by (simp add: and_0x80)

text \<open>
  C32. A clock that stores a time in binary or as decimal digits, as its register B says, with the hour from
  0 to 23, is read correctly: the date and time handed to \<open>chrono\<close> are the stored ones, and the reading ends.
\<close>

theorem read_rtc_value:
  assumes hw: "rtc_hardware bus regs P" and P: "P d" and fuel: "0 < fuel"
    and mode: "bcd \<longleftrightarrow> regs 0x0B AND 0x04 = 0"
    and regs: "regs 0x00 = rtc_code bcd s" "regs 0x02 = rtc_code bcd mi" "regs 0x04 = rtc_code bcd h" "regs 0x07 = rtc_code bcd dy"
      "regs 0x08 = rtc_code bcd mo" "regs 0x09 = rtc_code bcd y" "regs 0x32 = rtc_code bcd c"
    and range: "s < 100" "mi < 100" "h < 24" "dy < 100" "mo < 100" "y < 100" "c < 100"
  shows "\<exists>d'. P d' \<and> read_rtc fuel bus ymd_hms d =
    bindO (expect_some [] (ymd_hms (int (100 * c + y)) (of_nat mo) (of_nat dy) (of_nat h) (of_nat mi) (of_nat s))) (\<lambda>dt. Done (dt, d'))"
proof -
  let ?t = "convert_time (regs 0x0B) (rtc_snapshot regs)"
  have t: "unat (second ?t) = s" "unat (minute ?t) = mi" "unat (hour ?t) = h" "unat (day ?t) = dy" "unat (month ?t) = mo"
    "unat (year ?t) = y" "unat (century ?t) = c"
    using mode regs range hour_bcd_code [OF range(3)]
    by (simp_all add: convert_time_def Let_def never_pm rtc_snapshot_def from_bcd_code unat_rtc_code)
  have u: "ucast (w :: u8) = (of_nat (unat w) :: u32)" for w by (simp add: of_nat_unat)
  obtain d' where "P d'" "read_rtc fuel bus ymd_hms d =
    bindO (expect_some [] (ymd_hms (int (unat (century ?t)) * 100 + int (unat (year ?t))) (ucast (month ?t)) (ucast (day ?t))
       (ucast (hour ?t)) (ucast (minute ?t)) (ucast (second ?t)))) (\<lambda>dt. Done (dt, d'))"
    using read_rtc_run [OF hw P fuel] unfolding Let_def by blast
  then show ?thesis unfolding u t by (auto simp: mult.commute)
qed

text \<open>
  C33. On a clock in 12-hour mode every hour after noon makes the reading panic: the mark of the afternoon, the
  highest bit of the hour, is compared with 1 and never recognised, and the marked hour is no valid hour.
\<close>

theorem read_rtc_pm_panics:
  assumes hw: "rtc_hardware bus regs P" and P: "P d" and fuel: "0 < fuel"
    and pm: "bit (regs 0x04) 7" and chrono: "\<And>y mo dy h mi s. 24 \<le> h \<Longrightarrow> ymd_hms y mo dy h mi s = None"
  shows "read_rtc fuel bus ymd_hms d = Panic []"
proof -
  let ?t = "convert_time (regs 0x0B) (rtc_snapshot regs)"
  have "bit (hour ?t) 7"
    using pm by (simp add: convert_time_def Let_def never_pm rtc_snapshot_def and_0x80 bit_or_iff)
  then have "2 ^ 7 \<le> unat (hour ?t)"
    using bit_below [of "hour ?t" 7 7] by (metis less_irrefl not_less)
  then have "24 \<le> unat (ucast (hour ?t) :: u32)"
    by (simp add: unsigned_ucast_eq take_bit_nat_eq_self order.strict_trans [OF unsigned_less])
  then have "24 \<le> (ucast (hour ?t) :: u32)" by (simp add: word_le_nat_alt)
  then show ?thesis using read_rtc_run [OF hw P fuel, of ymd_hms] chrono by (auto simp: Let_def)
qed

section \<open>A sample clock\<close>

definition rtc_sample :: "(u8 \<Rightarrow> u8) \<Rightarrow> u8 bus" where
  "rtc_sample regs =
     \<lparr>bus_out8 = \<lambda>p v d. if p = 0x70 then v else d, bus_out16 = \<lambda>p v d. d, bus_out32 = \<lambda>p v d. d,
      bus_in8 = \<lambda>p d. (regs d, d), bus_in16 = \<lambda>p d. (0, d), bus_in32 = \<lambda>p d. (0, d)\<rparr>"

definition rtc_regs :: "u8 \<Rightarrow> u8 \<Rightarrow> u8" where
  "rtc_regs h r = (if r = 0x00 then 0x59 else if r = 0x02 then 0x30 else if r = 0x04 then h else if r = 0x07 then 0x15
     else if r = 0x08 then 0x11 else if r = 0x09 then 0x26 else if r = 0x32 then 0x20 else 0)"

lemma rtc_sample_hardware: "rtc_hardware (rtc_sample (rtc_regs h)) (rtc_regs h) (\<lambda>_. True)"
  by (simp add: rtc_hardware_def rtc_sample_def) (simp add: rtc_regs_def)

theorem read_rtc_value_witness:
  "\<exists>d'. read_rtc 1 (rtc_sample (rtc_regs 0x23)) (\<lambda>y mo dy h mi s. Some (y, mo, dy, h, mi, s)) 0 =
    Done ((2026, 11, 15, 23, 30, 59), d')"
  using read_rtc_value [OF rtc_sample_hardware [of "0x23"] TrueI, where fuel = 1 and bcd = True and s = 59 and mi = 30 and h = 23
      and dy = 15 and mo = 11 and y = 26 and c = 20 and d = 0 and ymd_hms = "\<lambda>y mo dy h mi s. Some (y, mo, dy, h, mi, s)"]
  by (simp add: rtc_regs_def rtc_code_def)

theorem read_rtc_pm_panics_witness:
  "read_rtc 1 (rtc_sample (rtc_regs 0x81)) (\<lambda>y mo dy h mi s. if h < 24 then Some () else None) 0 = Panic []"
  by (rule read_rtc_pm_panics [OF rtc_sample_hardware TrueI]) (simp_all add: rtc_regs_def)

end
