(* ===== verification/Wakers.thy ===== *)
theory Wakers
  imports Ferr_Prelude
begin

text \<open>
  What the asynchronous part of the kernel (\<^verbatim>\<open>src/task\<close>) builds on. The bounded queue of the crate \<open>crossbeam_queue\<close> and
  the \<open>AtomicWaker\<close> of \<open>futures_util\<close> are parameters, records of their operations, with their documented behaviour as the
  predicates \<open>array_queue\<close> and \<open>atomic_waker\<close>. An initialised-once cell is \<open>None\<close> before its initialisation; a
  \<open>BTreeMap\<close> of the standard library is a list of pairs sorted by key. The second half is the protocol by which an
  interrupt handler hands an event to a task, with the interleavings of the two.
\<close>

section \<open>Queues and wakers of the crates\<close>

type_synonym TaskId = u64

record ('a, 'q) queue_ops =
  q_new :: "nat \<Rightarrow> 'q"
  q_push :: "'a \<Rightarrow> 'q \<Rightarrow> ('a + unit) \<times> 'q"
  q_pop :: "'q \<Rightarrow> 'a option \<times> 'q"
  q_is_empty :: "'q \<Rightarrow> bool"

definition array_queue :: "('a, 'q) queue_ops \<Rightarrow> ('q \<Rightarrow> 'a list) \<Rightarrow> ('q \<Rightarrow> nat) \<Rightarrow> bool" where
  "array_queue Q contents cap \<longleftrightarrow>
     (\<forall>n. contents (q_new Q n) = [] \<and> cap (q_new Q n) = n) \<and>
     (\<forall>x q. length (contents q) < cap q \<longrightarrow>
        fst (q_push Q x q) = Inr () \<and> contents (snd (q_push Q x q)) = contents q @ [x] \<and> cap (snd (q_push Q x q)) = cap q) \<and>
     (\<forall>x q. \<not> length (contents q) < cap q \<longrightarrow> q_push Q x q = (Inl x, q)) \<and>
     (\<forall>q. contents q = [] \<longrightarrow> q_pop Q q = (None, q)) \<and>
     (\<forall>q x xs. contents q = x # xs \<longrightarrow>
        fst (q_pop Q q) = Some x \<and> contents (snd (q_pop Q q)) = xs \<and> cap (snd (q_pop Q q)) = cap q) \<and>
     (\<forall>q. q_is_empty Q q \<longleftrightarrow> contents q = [])"

lemma array_queueD:
  assumes "array_queue Q contents cap"
  shows queue_new: "contents (q_new Q n) = []" "cap (q_new Q n) = n"
    and queue_push: "length (contents q) < cap q \<Longrightarrow> fst (q_push Q x q) = Inr ()"
      "length (contents q) < cap q \<Longrightarrow> contents (snd (q_push Q x q)) = contents q @ [x]"
      "length (contents q) < cap q \<Longrightarrow> cap (snd (q_push Q x q)) = cap q"
    and queue_full: "\<not> length (contents q) < cap q \<Longrightarrow> q_push Q x q = (Inl x, q)"
    and queue_pop_empty: "contents q = [] \<Longrightarrow> q_pop Q q = (None, q)"
    and queue_pop: "contents q = y # ys \<Longrightarrow> fst (q_pop Q q) = Some y" "contents q = y # ys \<Longrightarrow> contents (snd (q_pop Q q)) = ys"
      "contents q = y # ys \<Longrightarrow> cap (snd (q_pop Q q)) = cap q"
    and queue_is_empty: "q_is_empty Q q \<longleftrightarrow> contents q = []"
  using assms unfolding array_queue_def by blast+

record 'w waker_ops =
  aw_new :: 'w
  aw_register :: "TaskId \<Rightarrow> 'w \<Rightarrow> 'w"
  aw_take :: "'w \<Rightarrow> TaskId option \<times> 'w"

definition atomic_waker :: "'w waker_ops \<Rightarrow> ('w \<Rightarrow> TaskId option) \<Rightarrow> bool" where
  "atomic_waker W wk \<longleftrightarrow> wk (aw_new W) = None \<and> (\<forall>i w. wk (aw_register W i w) = Some i) \<and>
     (\<forall>w. fst (aw_take W w) = wk w \<and> wk (snd (aw_take W w)) = None)"

text \<open>Queues and wakers as lists and options.\<close>

definition list_queue :: "('a, nat \<times> 'a list) queue_ops" where
  "list_queue =
     \<lparr>q_new = \<lambda>n. (n, []), q_push = \<lambda>x (n, xs). if length xs < n then (Inr (), (n, xs @ [x])) else (Inl x, (n, xs)),
      q_pop = \<lambda>(n, xs). case xs of [] \<Rightarrow> (None, (n, [])) | x # xs \<Rightarrow> (Some x, (n, xs)), q_is_empty = \<lambda>(n, xs). xs = []\<rparr>"

lemma array_queue_list: "array_queue list_queue snd fst"
  by (auto simp: array_queue_def list_queue_def split: list.splits)

definition option_waker :: "TaskId option waker_ops" where
  "option_waker = \<lparr>aw_new = None, aw_register = \<lambda>i w. Some i, aw_take = \<lambda>w. (w, None)\<rparr>"

lemma atomic_waker_option: "atomic_waker option_waker id"
  by (simp add: atomic_waker_def option_waker_def)

section \<open>The waker of a task\<close>

text \<open>A waker is the identifier of its task: \<open>wake_task\<close> puts it into the queue of the executor.\<close>

definition wake_task :: "(TaskId, 'q) queue_ops \<Rightarrow> TaskId \<Rightarrow> 'q \<Rightarrow> 'q outcome" where
  "wake_task Q task_id q =
     (let (r, q) = q_push Q task_id q in bindO (expect ''task_queue full'' r) (\<lambda>_. Done q))"

text \<open>\<open>AtomicWaker::wake\<close>: take the registered waker, if any, and wake it.\<close>

definition aw_wake :: "'w waker_ops \<Rightarrow> (TaskId, 'q) queue_ops \<Rightarrow> 'w \<Rightarrow> 'q \<Rightarrow> ('w \<times> 'q) outcome" where
  "aw_wake W Q w q =
     (let (r, w) = aw_take W w
      in case r of None \<Rightarrow> Done (w, q) | Some i \<Rightarrow> bindO (wake_task Q i q) (\<lambda>q. Done (w, q)))"

lemma wake_task_done:
  assumes "array_queue Q contents cap" "wake_task Q i q = Done q'"
  shows "contents q' = contents q @ [i]" "cap q' = cap q"
  using assms by (cases "length (contents q) < cap q";
    auto simp: wake_task_def split_def Let_def queue_push [OF assms(1)] queue_full [OF assms(1)] outcome_simps)+

lemma wake_task_room:
  assumes "array_queue Q contents cap" "length (contents q) < cap q"
  shows "wake_task Q i q = Done (snd (q_push Q i q))"
  using queue_push(1) [OF assms] by (simp add: wake_task_def split_def)

lemma aw_wake_done:
  assumes Q: "array_queue Q contents cap" and W: "atomic_waker W wk" and run: "aw_wake W Q w q = Done (w', q')"
  shows "wk w' = None" "contents q' = contents q @ (case wk w of None \<Rightarrow> [] | Some i \<Rightarrow> [i])" "cap q' = cap q"
  using run W wake_task_done [OF Q]
  by (auto simp: aw_wake_def atomic_waker_def split_def Let_def outcome_simps split: option.splits)

lemma aw_wake_room:
  assumes Q: "array_queue Q contents cap" and W: "atomic_waker W wk"
    and room: "length (contents q) + (case wk w of None \<Rightarrow> 0 | Some i \<Rightarrow> 1) \<le> cap q"
  shows "\<exists>w' q'. aw_wake W Q w q = Done (w', q')"
  using W room wake_task_room [OF Q, of q]
  by (auto simp: aw_wake_def atomic_waker_def split_def Let_def split: option.splits)

section \<open>Sorted maps\<close>

fun bt_insert :: "'k::linorder \<Rightarrow> 'v \<Rightarrow> ('k \<times> 'v) list \<Rightarrow> ('k \<times> 'v) list" where
  "bt_insert k v [] = [(k, v)]"
| "bt_insert k v ((k', v') # m) =
     (if k < k' then (k, v) # (k', v') # m else if k = k' then (k, v) # m else (k', v') # bt_insert k v m)"

definition bt_remove :: "'k \<Rightarrow> ('k \<times> 'v) list \<Rightarrow> ('k \<times> 'v) list" where
  "bt_remove k m = filter (\<lambda>(k', _). k' \<noteq> k) m"

definition bt_sorted :: "('k::linorder \<times> 'v) list \<Rightarrow> bool" where
  "bt_sorted m \<longleftrightarrow> sorted_wrt (<) (map fst m)"

lemma map_of_bt_insert: "bt_sorted m \<Longrightarrow> map_of (bt_insert k v m) = (map_of m)(k \<mapsto> v)"
  by (induction k v m rule: bt_insert.induct) (auto simp: bt_sorted_def fun_eq_iff)

lemma fst_bt_insert: "set (map fst (bt_insert k v m)) = insert k (set (map fst m))"
  by (induction k v m rule: bt_insert.induct) auto

lemma bt_sorted_insert: "bt_sorted m \<Longrightarrow> bt_sorted (bt_insert k v m)"
proof (induction k v m rule: bt_insert.induct)
  case (2 k v k' v' m)
  then show ?case using fst_bt_insert [of k v m] by (auto simp: bt_sorted_def)
qed (simp add: bt_sorted_def)

lemma map_of_bt_remove: "map_of (bt_remove k m) = (map_of m)(k := None)"
  by (induction m) (auto simp: bt_remove_def fun_eq_iff)

lemma bt_sorted_remove: "bt_sorted m \<Longrightarrow> bt_sorted (bt_remove k m)"
  by (induction m) (auto simp: bt_sorted_def bt_remove_def)

lemma length_bt_insert: "length (bt_insert k v m) \<le> Suc (length m)"
  by (induction k v m rule: bt_insert.induct) auto

section \<open>Events from interrupt handlers\<close>

text \<open>
  A stream of events: is one available, the consumption of one, the registration of a waker and its removal, and the
  interrupt handler that produces an event (with a datum) and wakes. A poll of the stream takes several atomic steps, and the
  handler may run between any two of them.
\<close>

record ('s, 'q) event_source =
  ev_avail :: "'s \<Rightarrow> bool"
  ev_consume :: "'s \<Rightarrow> 's"
  ev_register :: "TaskId \<Rightarrow> 's \<Rightarrow> 's"
  ev_clear :: "'s \<Rightarrow> 's"
  ev_interrupt :: "u8 \<Rightarrow> 's \<Rightarrow> 'q \<Rightarrow> ('s \<times> 'q) outcome"

datatype poll_pc = First | Register | Second | TakeWaker | Finished bool

inductive poll_step :: "('s, 'q) event_source \<Rightarrow> TaskId \<Rightarrow> poll_pc \<times> 's \<times> 'q \<Rightarrow> poll_pc \<times> 's \<times> 'q \<Rightarrow> bool" for E i where
  first_ready: "ev_avail E s \<Longrightarrow> poll_step E i (First, s, q) (Finished True, ev_consume E s, q)"
| first_empty: "\<not> ev_avail E s \<Longrightarrow> poll_step E i (First, s, q) (Register, s, q)"
| register: "poll_step E i (Register, s, q) (Second, ev_register E i s, q)"
| second_ready: "ev_avail E s \<Longrightarrow> poll_step E i (Second, s, q) (TakeWaker, ev_consume E s, q)"
| second_empty: "\<not> ev_avail E s \<Longrightarrow> poll_step E i (Second, s, q) (Finished False, s, q)"
| take_waker: "poll_step E i (TakeWaker, s, q) (Finished True, ev_clear E s, q)"
| interrupt: "ev_interrupt E x s q = Done (s', q') \<Longrightarrow> poll_step E i (pc, s, q) (pc, s', q')"

inductive poll_steps :: "('s, 'q) event_source \<Rightarrow> TaskId \<Rightarrow> poll_pc \<times> 's \<times> 'q \<Rightarrow> poll_pc \<times> 's \<times> 'q \<Rightarrow> bool" for E i where
  poll_refl: "poll_steps E i x x"
| poll_trans: "poll_steps E i x y \<Longrightarrow> poll_step E i y z \<Longrightarrow> poll_steps E i x z"

inductive_cases poll_step_cases: "poll_step E i (pc, s, q) (pc', s', q')"

locale event_stream =
  fixes E :: "('s, 'q) event_source" and contents :: "'q \<Rightarrow> TaskId list" and waker :: "'s \<Rightarrow> TaskId option"
  assumes register_waker: "waker (ev_register E i s) = Some i"
    and interrupt_wakes: "ev_interrupt E x s q = Done (s', q') \<Longrightarrow>
      waker s' = waker s \<and> contents q' = contents q \<and> (ev_avail E s' \<longrightarrow> ev_avail E s) \<or>
      ev_avail E s' \<and> waker s' = None \<and> contents q' = contents q @ (case waker s of None \<Rightarrow> [] | Some i \<Rightarrow> [i])"
begin

definition awake :: "TaskId \<Rightarrow> poll_pc \<times> 's \<times> 'q \<Rightarrow> bool" where
  "awake i x \<longleftrightarrow> (case x of (pc, s, q) \<Rightarrow>
     (pc = Second \<longrightarrow> waker s = Some i \<or> i \<in> set (contents q)) \<and>
     (pc = Finished False \<longrightarrow> waker s = Some i \<and> \<not> ev_avail E s \<or> i \<in> set (contents q)))"

lemma awake_step: "poll_step E i x y \<Longrightarrow> awake i x \<Longrightarrow> awake i y"
proof (induction rule: poll_step.induct)
  case (interrupt x s q s' q' pc)
  then show ?case using interrupt_wakes [OF interrupt.hyps] by (auto simp: awake_def)
qed (auto simp: awake_def register_waker)

lemma awake_steps: "poll_steps E i x y \<Longrightarrow> awake i x \<Longrightarrow> awake i y"
  by (induction rule: poll_steps.induct) (auto intro: awake_step)

lemma no_lost_wakeup:
  assumes "poll_steps E i (First, s0, q0) (Finished False, s, q)" "ev_avail E s"
  shows "i \<in> set (contents q)"
  using awake_steps [OF assms(1)] assms(2) by (auto simp: awake_def)

end

end
