(* ===== verification/Timer.thy ===== *)
theory Timer
  imports Wakers
begin

text \<open>
  The timer (\<^verbatim>\<open>src/task/timer.rs\<close>): the interrupt raises a flag, the timer task consumes it and counts down the sleeping
  tasks. The state holds the statics of the file; \<open>Q\<close> is the queue of the executor and \<open>W\<close> the atomic wakers. Accesses to
  the sleeping tasks are under a lock and therefore one after the other.
\<close>

section \<open>The code\<close>

definition TIMER_FREQUENCY :: u16 where "TIMER_FREQUENCY = 250"

type_synonym 'w TimerTasks = "(u64 \<times> u64 \<times> 'w) list"

record 'w timer =
  TIMER_FLAG :: "bool option"
  TIMER_WAKER :: 'w
  timer_tasks :: "'w TimerTasks"
  NEXT_ID :: u64

text \<open>
  \<open>compare_exchange(current, new)\<close> of a flag: \<open>Ok\<close> of the old value if it was \<open>current\<close>, else \<open>Err\<close> of it.
\<close>

definition compare_exchange :: "bool \<Rightarrow> bool \<Rightarrow> bool \<Rightarrow> (bool + bool) \<times> bool" where
  "compare_exchange current new_value flag = (if flag = current then (Inr flag, new_value) else (Inl flag, flag))"

text \<open>The interrupt side; the message about an event that was not consumed has no further effect.\<close>

definition raise_timer :: "'w waker_ops \<Rightarrow> (TaskId, 'q) queue_ops \<Rightarrow> 'w timer \<Rightarrow> 'q \<Rightarrow> ('w timer \<times> 'q) outcome" where
  "raise_timer W Q t q =
     (case TIMER_FLAG t of
        None \<Rightarrow> Done (t, q)
      | Some bool_flag \<Rightarrow>
          let bool_flag = True;
              (r, bool_flag) = compare_exchange False True bool_flag
          in bindO (aw_wake W Q (TIMER_WAKER t) q) (\<lambda>(w, q).
             Done (t\<lparr>TIMER_FLAG := Some bool_flag, TIMER_WAKER := w\<rparr>, q)))"

definition TimerStream_new :: "'w timer \<Rightarrow> 'w timer outcome" where
  "TimerStream_new t =
     (case TIMER_FLAG t of
        None \<Rightarrow> Done (t\<lparr>TIMER_FLAG := Some False\<rparr>)
      | Some _ \<Rightarrow> Panic ''TimerStream::new should only be called once'')"

text \<open>A poll of the stream by the task \<open>i\<close>: \<open>True\<close> is \<open>Ready(Some(()))\<close>, \<open>False\<close> is \<open>Pending\<close>.\<close>

definition timer_poll_next :: "'w waker_ops \<Rightarrow> TaskId \<Rightarrow> 'w timer \<Rightarrow> (bool \<times> 'w timer) outcome" where
  "timer_poll_next W i t =
     (case TIMER_FLAG t of
        None \<Rightarrow> Panic ''not initialized''
      | Some timer_flag \<Rightarrow>
          let (r, timer_flag) = compare_exchange True False timer_flag;
              t = t\<lparr>TIMER_FLAG := Some timer_flag\<rparr>
          in if r = Inr True then Done (True, t)
             else let t = t\<lparr>TIMER_WAKER := aw_register W i (TIMER_WAKER t)\<rparr>;
                      (r, timer_flag) = compare_exchange True False timer_flag;
                      t = t\<lparr>TIMER_FLAG := Some timer_flag\<rparr>
                  in if r = Inr True then Done (True, t\<lparr>TIMER_WAKER := snd (aw_take W (TIMER_WAKER t))\<rparr>)
                     else Done (False, t))"

definition register_task :: "'w waker_ops \<Rightarrow> u64 \<Rightarrow> u64 \<Rightarrow> 'w TimerTasks \<Rightarrow> unit result \<times> 'w TimerTasks" where
  "register_task W i ticks tasks =
     (if map_of tasks i \<noteq> None then (Inl ''Task already registered'', tasks)
      else (Inr (), bt_insert i (ticks, aw_new W) tasks))"

fun decrement_all :: "'w waker_ops \<Rightarrow> (TaskId, 'q) queue_ops \<Rightarrow> 'w TimerTasks \<Rightarrow> 'q \<Rightarrow> ('w TimerTasks \<times> 'q) outcome" where
  "decrement_all W Q [] q = Done ([], q)"
| "decrement_all W Q ((i, ticks, w) # tasks) q =
     (let ticks = (if ticks = 0 then 0 else ticks - 1)
      in bindO (if ticks = 0 then aw_wake W Q w q else Done (w, q)) (\<lambda>(w, q).
         bindO (decrement_all W Q tasks q) (\<lambda>(tasks, q). Done ((i, ticks, w) # tasks, q))))"

definition check_task :: "u64 \<Rightarrow> 'w TimerTasks \<Rightarrow> (bool result \<times> 'w TimerTasks) outcome" where
  "check_task i tasks =
     bindO (expect_some ''There is no such task'' (map_of tasks i)) (\<lambda>(ticks, w).
     if ticks = 0 then Done (Inr True, bt_remove i tasks) else Done (Inr False, tasks))"

definition register_waker :: "'w waker_ops \<Rightarrow> u64 \<Rightarrow> TaskId \<Rightarrow> 'w TimerTasks \<Rightarrow> (unit result \<times> 'w TimerTasks) outcome" where
  "register_waker W i waker tasks =
     bindO (expect_some [] (map_of tasks i)) (\<lambda>(ticks, w).
     Done (Inr (), bt_insert i (ticks, aw_register W waker w) tasks))"

text \<open>One round of the loop of \<open>timer_loop\<close>, after an event.\<close>

definition timer_round :: "'w waker_ops \<Rightarrow> (TaskId, 'q) queue_ops \<Rightarrow> 'w timer \<Rightarrow> 'q \<Rightarrow> ('w timer \<times> 'q) outcome" where
  "timer_round W Q t q =
     bindO (decrement_all W Q (timer_tasks t) q) (\<lambda>(tasks, q). Done (t\<lparr>timer_tasks := tasks\<rparr>, q))"

definition sleep_ticks :: "u64 \<Rightarrow> u64" where
  "sleep_ticks sleep_for_ms =
     (let msec_freq = ucast (1000 div TIMER_FREQUENCY)
      in if sleep_for_ms < msec_freq then 1 else sleep_for_ms div msec_freq)"

definition Sleep_new :: "'w waker_ops \<Rightarrow> u64 \<Rightarrow> 'w timer \<Rightarrow> (u64 \<times> 'w timer) outcome" where
  "Sleep_new W sleep_for_ms t =
     (let i = NEXT_ID t;
          t = t\<lparr>NEXT_ID := NEXT_ID t + 1\<rparr>;
          (r, tasks) = register_task W i (sleep_ticks sleep_for_ms) (timer_tasks t)
      in bindO (expect ''Failed to register task'' r) (\<lambda>_. Done (i, t\<lparr>timer_tasks := tasks\<rparr>)))"

text \<open>\<open>Future::poll\<close> of a sleep by the task \<open>waker\<close>: \<open>True\<close> is \<open>Ready\<close>.\<close>

definition Sleep_poll :: "'w waker_ops \<Rightarrow> u64 \<Rightarrow> TaskId \<Rightarrow> 'w timer \<Rightarrow> (bool \<times> 'w timer) outcome" where
  "Sleep_poll W task_id waker t =
     bindO (check_task task_id (timer_tasks t)) (\<lambda>(r, tasks).
     bindO (expect ''Failed to check task'' r) (\<lambda>ready.
     if ready then Done (True, t\<lparr>timer_tasks := tasks\<rparr>)
     else bindO (register_waker W task_id waker tasks) (\<lambda>(r, tasks).
          bindO (expect ''Failed to register waker'' r) (\<lambda>_. Done (False, t\<lparr>timer_tasks := tasks\<rparr>)))))"

section \<open>The timer flag\<close>

text \<open>The stream of timer events: the flag, the waker and the interrupt.\<close>

definition timer_source :: "'w waker_ops \<Rightarrow> (TaskId, 'q) queue_ops \<Rightarrow> ('w timer, 'q) event_source" where
  "timer_source W Q =
     \<lparr>ev_avail = \<lambda>t. TIMER_FLAG t = Some True,
      ev_consume = \<lambda>t. t\<lparr>TIMER_FLAG := Some False\<rparr>,
      ev_register = \<lambda>i t. t\<lparr>TIMER_WAKER := aw_register W i (TIMER_WAKER t)\<rparr>,
      ev_clear = \<lambda>t. t\<lparr>TIMER_WAKER := snd (aw_take W (TIMER_WAKER t))\<rparr>,
      ev_interrupt = \<lambda>_. raise_timer W Q\<rparr>"

text \<open>The poll is the sequence of its atomic steps, when no interrupt comes in between.\<close>

lemma timer_poll_steps:
  assumes "timer_poll_next W i t = Done (r, t')"
  shows "poll_steps (timer_source W Q) i (First, t, q) (Finished r, t', q)"
proof -
  let ?E = "timer_source W Q"
  obtain flag where flag: "TIMER_FLAG t = Some flag" using assms by (auto simp: timer_poll_next_def split: option.splits)
  have upd: "t\<lparr>TIMER_WAKER := w, TIMER_FLAG := Some flag\<rparr> = t\<lparr>TIMER_WAKER := w\<rparr>" for w
    using flag by (cases t) simp
  show ?thesis
  proof (cases flag)
    case True
    have "poll_step ?E i (First, t, q) (Finished True, ev_consume ?E t, q)"
      using flag True by (intro first_ready) (simp add: timer_source_def)
    from poll_trans [OF poll_refl this] show ?thesis
      using assms flag True by (simp add: timer_poll_next_def compare_exchange_def timer_source_def)
  next
    case False
    have "poll_step ?E i (First, t, q) (Register, t, q)"
      using flag False by (intro first_empty) (simp add: timer_source_def)
    note s1 = poll_trans [OF poll_refl this]
    have "poll_step ?E i (Second, ev_register ?E i t, q) (Finished False, ev_register ?E i t, q)"
      using flag False by (intro second_empty) (simp add: timer_source_def)
    note s3 = poll_trans [OF poll_trans [OF s1 register] this]
    have "r = False" "t' = ev_register ?E i t"
      using assms flag upd False by (auto simp: timer_poll_next_def compare_exchange_def timer_source_def)
    then show ?thesis using s3 by simp
  qed
qed

lemma timer_event_stream:
  assumes W: "atomic_waker W wk" and Q: "array_queue Q contents cap"
  shows "event_stream (timer_source W Q) contents (\<lambda>t. wk (TIMER_WAKER t))"
proof
  fix x t q t' q' assume run: "ev_interrupt (timer_source W Q) x t q = Done (t', q')"
  show "wk (TIMER_WAKER t') = wk (TIMER_WAKER t) \<and> contents q' = contents q \<and>
        (ev_avail (timer_source W Q) t' \<longrightarrow> ev_avail (timer_source W Q) t) \<or>
      ev_avail (timer_source W Q) t' \<and> wk (TIMER_WAKER t') = None \<and>
      contents q' = contents q @ (case wk (TIMER_WAKER t) of None \<Rightarrow> [] | Some i \<Rightarrow> [i])"
  proof (cases "TIMER_FLAG t")
    case None
    then show ?thesis using run by (simp add: timer_source_def raise_timer_def)
  next
    case (Some flag)
    then have "bindO (aw_wake W Q (TIMER_WAKER t) q) (\<lambda>(w, q). Done (t\<lparr>TIMER_FLAG := Some True, TIMER_WAKER := w\<rparr>, q)) = Done (t', q')"
      using run by (simp add: timer_source_def raise_timer_def compare_exchange_def)
    then obtain w where wake: "aw_wake W Q (TIMER_WAKER t) q = Done (w, q')" and t': "t' = t\<lparr>TIMER_FLAG := Some True, TIMER_WAKER := w\<rparr>"
      by (cases "aw_wake W Q (TIMER_WAKER t) q") auto
    show ?thesis using aw_wake_done [OF Q W wake] by (simp add: t' timer_source_def)
  qed
qed (use W in \<open>simp add: timer_source_def atomic_waker_def\<close>)

interpretation timer_events: event_stream "timer_source option_waker list_queue" snd "\<lambda>t. id (TIMER_WAKER t)"
  by (rule timer_event_stream [OF atomic_waker_option array_queue_list])

section \<open>Sleeping tasks\<close>

fun timer_rounds :: "'w waker_ops \<Rightarrow> (TaskId, 'q) queue_ops \<Rightarrow> nat \<Rightarrow> 'w timer \<Rightarrow> 'q \<Rightarrow> ('w timer \<times> 'q) outcome" where
  "timer_rounds W Q 0 t q = Done (t, q)"
| "timer_rounds W Q (Suc n) t q = bindO (timer_round W Q t q) (\<lambda>(t, q). timer_rounds W Q n t q)"

text \<open>The registered wakers of sleeping tasks: each can put one identifier into the queue.\<close>

definition sleepers :: "('w \<Rightarrow> TaskId option) \<Rightarrow> 'w TimerTasks \<Rightarrow> nat" where
  "sleepers wk tasks = length (filter (\<lambda>(i, n, w). wk w \<noteq> None) tasks)"

lemma decrement_all_lookup:
  assumes "decrement_all W Q tasks q = Done (tasks', q')" "map_of tasks i = Some (n, w)"
  shows "\<exists>w'. map_of tasks' i = Some (n - (if n = 0 then 0 else 1), w')"
  using assms
proof (induction tasks arbitrary: q tasks')
  case (Cons x tasks)
  obtain j m v where x: "x = (j, m, v)" using prod_cases3 by blast
  let ?m = "if m = 0 then 0 else m - 1"
  obtain v1 q1 where v1: "(if ?m = 0 then aw_wake W Q v q else Done (v, q)) = Done (v1, q1)"
    using Cons.prems(1) x by (cases "if ?m = 0 then aw_wake W Q v q else Done (v, q)") (auto simp: Let_def)
  obtain tasks1 where t1: "decrement_all W Q tasks q1 = Done (tasks1, q')" "tasks' = (j, ?m, v1) # tasks1"
    using Cons.prems(1) x v1 by (cases "decrement_all W Q tasks q1") (auto simp: Let_def)
  show ?case
    using Cons.IH [OF t1(1)] Cons.prems(2) x t1(2) by (cases "i = j") auto
qed simp

lemma decrement_all_room:
  assumes Q: "array_queue Q contents cap" and W: "atomic_waker W wk"
    and "length (contents q) + sleepers wk tasks \<le> cap q"
  shows "\<exists>tasks' q'. decrement_all W Q tasks q = Done (tasks', q') \<and> cap q' = cap q \<and>
    length (contents q') + sleepers wk tasks' \<le> length (contents q) + sleepers wk tasks"
  using assms(3)
proof (induction tasks arbitrary: q)
  case (Cons x tasks)
  obtain j m v where x: "x = (j, m, v)" using prod_cases3 by blast
  let ?m = "if m = 0 then 0 else m - 1" and ?s = "\<lambda>w. case wk w of None \<Rightarrow> 0 | Some i \<Rightarrow> (1 :: nat)"
  have s: "sleepers wk ((i, n, w) # ts) = ?s w + sleepers wk ts" for i n w ts
    by (simp add: sleepers_def split: option.splits)
  have room: "length (contents q) + ?s v \<le> cap q" using Cons.prems by (simp add: x s)
  have "\<exists>v1 q1. (if ?m = 0 then aw_wake W Q v q else Done (v, q)) = Done (v1, q1) \<and> cap q1 = cap q \<and>
      length (contents q1) + ?s v1 \<le> length (contents q) + ?s v"
  proof (cases "?m = 0")
    case True
    obtain v1 q1 where r: "aw_wake W Q v q = Done (v1, q1)" using aw_wake_room [OF Q W room] by blast
    then show ?thesis using True aw_wake_done [OF Q W r] by (auto split: option.splits)
  next
    case False
    then show ?thesis by (simp del: if_split)
  qed
  then obtain v1 q1 where v1: "(if ?m = 0 then aw_wake W Q v q else Done (v, q)) = Done (v1, q1)" "cap q1 = cap q"
      "length (contents q1) + ?s v1 \<le> length (contents q) + ?s v" by blast
  have "length (contents q1) + sleepers wk tasks \<le> cap q1" using v1(2,3) Cons.prems by (simp add: x s)
  from Cons.IH [OF this] obtain tasks1 q2 where "decrement_all W Q tasks q1 = Done (tasks1, q2)" "cap q2 = cap q1"
      "length (contents q2) + sleepers wk tasks1 \<le> length (contents q1) + sleepers wk tasks" by blast
  then show ?case using v1 by (auto simp: x s Let_def)
qed (simp add: sleepers_def)

lemma timer_rounds_counter:
  assumes Q: "array_queue Q contents cap" and W: "atomic_waker W wk"
    and "length (contents q) + sleepers wk (timer_tasks t) \<le> cap q" "map_of (timer_tasks t) i = Some (n, w)"
  shows "\<exists>t' q' w'. timer_rounds W Q k t q = Done (t', q') \<and> map_of (timer_tasks t') i = Some (of_nat (unat n - k), w')"
  using assms(3,4)
proof (induction k arbitrary: t q n w)
  case (Suc k)
  obtain tasks1 q1 where d: "decrement_all W Q (timer_tasks t) q = Done (tasks1, q1)" "cap q1 = cap q"
      "length (contents q1) + sleepers wk tasks1 \<le> length (contents q) + sleepers wk (timer_tasks t)"
    using decrement_all_room [OF Q W Suc.prems(1)] by blast
  obtain w1 where w1: "map_of tasks1 i = Some (n - (if n = 0 then 0 else 1), w1)"
    using decrement_all_lookup [OF d(1) Suc.prems(2)] by blast
  have u: "unat (n - (if n = 0 then 0 else 1)) - k = unat n - Suc k"
    by (simp add: unat_minus_one)
  have "length (contents q1) + sleepers wk (timer_tasks (t\<lparr>timer_tasks := tasks1\<rparr>)) \<le> cap q1" using d(2,3) Suc.prems(1) by simp
  from Suc.IH [OF this, of "n - (if n = 0 then 0 else 1)" w1] w1
  show ?case by (simp add: timer_round_def d(1) u)
qed simp

lemma unat_sleep_ticks: "unat (sleep_ticks ms) = max 1 (unat ms div 4)"
proof -
  have f: "ucast (1000 div TIMER_FREQUENCY) = (4 :: u64)" by (simp add: TIMER_FREQUENCY_def)
  show ?thesis
  proof (cases "ms < 4")
    case True
    then have "unat ms < 4" by (simp add: word_less_nat_alt)
    then show ?thesis using True unfolding sleep_ticks_def f by simp
  next
    case False
    then have "4 \<le> unat ms" by (simp add: word_less_nat_alt)
    then show ?thesis using False unfolding sleep_ticks_def f by (simp add: unat_div)
  qed
qed

section \<open>Properties\<close>



section \<open>A sample timer\<close>

definition timer_sample :: "TaskId option timer" where
  "timer_sample = \<lparr>TIMER_FLAG = Some False, TIMER_WAKER = None, timer_tasks = [], NEXT_ID = 0\<rparr>"



end
