(* ===== verification/Serial.thy ===== *)
theory Serial
  imports Byte_Order Port Interrupt_Flag
begin

text \<open>
  The serial port (\<^verbatim>\<open>shared_lib/src/serial.rs\<close>) and the logger on it (\<^verbatim>\<open>shared_lib/src/serial_logger.rs\<close>). The waiting loop
  runs with fuel. A formatted message reaches \<open>write_str\<close> as a string of bytes; the formatting itself is library code.
\<close>

section \<open>The code\<close>

definition INPUT_FULL :: u8 where "INPUT_FULL = 1"
definition OUTPUT_EMPTY :: u8 where "OUTPUT_EMPTY = push_bit 5 1"

definition outb :: "'d bus \<Rightarrow> u16 \<Rightarrow> u8 \<Rightarrow> 'd \<Rightarrow> 'd" where
  "outb bus port val d = bus_out8 bus port val d"

definition inb :: "'d bus \<Rightarrow> u16 \<Rightarrow> 'd \<Rightarrow> u8 \<times> 'd" where
  "inb bus port d = bus_in8 bus port d"

type_synonym SerialPort = u16

definition SerialPort_new :: "u16 \<Rightarrow> SerialPort" where
  "SerialPort_new base = base"

definition SerialPort_init :: "'d bus \<Rightarrow> SerialPort \<Rightarrow> 'd \<Rightarrow> 'd" where
  "SerialPort_init bus port d =
     (let d = outb bus (port + 1) 0x00 d;
          d = outb bus (port + 3) 0x80 d;
          d = outb bus port 0x03 d;
          d = outb bus (port + 1) 0x00 d;
          d = outb bus (port + 3) 0x03 d;
          d = outb bus (port + 2) 0xc7 d;
          d = outb bus (port + 4) 0x0b d
      in outb bus (port + 1) 0x01 d)"

definition line_sts :: "'d bus \<Rightarrow> SerialPort \<Rightarrow> 'd \<Rightarrow> u8 \<times> 'd" where
  "line_sts bus self d = (let (v, d) = inb bus (self + 5) d in (v AND (INPUT_FULL OR OUTPUT_EMPTY), d))"

text \<open>\<open>wait_for!(self.line_sts().contains(OUTPUT_EMPTY))\<close>.\<close>

fun wait_for :: "nat \<Rightarrow> 'd bus \<Rightarrow> SerialPort \<Rightarrow> 'd \<Rightarrow> 'd outcome" where
  "wait_for 0 bus self d = Hang"
| "wait_for (Suc fuel) bus self d =
     (let (sts, d) = line_sts bus self d
      in if sts AND OUTPUT_EMPTY = OUTPUT_EMPTY then Done d else wait_for fuel bus self d)"

definition SerialPort_send :: "nat \<Rightarrow> 'd bus \<Rightarrow> SerialPort \<Rightarrow> u8 \<Rightarrow> 'd \<Rightarrow> 'd outcome" where
  "SerialPort_send fuel bus self data d =
     (let port = self
      in if data = 8 \<or> data = 0x7F then
           bindO (wait_for fuel bus self d) (\<lambda>d.
           let d = outb bus port 8 d in
           bindO (wait_for fuel bus self d) (\<lambda>d.
           let d = outb bus port 0x20 d in
           bindO (wait_for fuel bus self d) (\<lambda>d. Done (outb bus port 8 d))))
         else bindO (wait_for fuel bus self d) (\<lambda>d. Done (outb bus port data d)))"

definition SerialPort_write_str :: "nat \<Rightarrow> 'd bus \<Rightarrow> SerialPort \<Rightarrow> u8 list \<Rightarrow> 'd \<Rightarrow> 'd outcome" where
  "SerialPort_write_str fuel bus self s d = forO (SerialPort_send fuel bus self) s d"

record SerialLogger =
  sl_port :: SerialPort

definition SerialLogger_new :: "'d bus \<Rightarrow> 'd \<Rightarrow> SerialLogger \<times> 'd" where
  "SerialLogger_new bus d = (let port = SerialPort_new 0x3F8; d = SerialPort_init bus port d in (\<lparr>sl_port = port\<rparr>, d))"

definition SerialLogger_send :: "nat \<Rightarrow> 'd bus \<Rightarrow> SerialLogger \<Rightarrow> u8 \<Rightarrow> 'd \<Rightarrow> 'd outcome" where
  "SerialLogger_send fuel bus self data d = SerialPort_send fuel bus (sl_port self) data d"

definition SerialLogger_write_str :: "nat \<Rightarrow> 'd bus \<Rightarrow> SerialLogger \<Rightarrow> u8 list \<Rightarrow> 'd \<Rightarrow> 'd outcome" where
  "SerialLogger_write_str fuel bus self s d = forO (SerialLogger_send fuel bus self) s d"

text \<open>\<open>_print\<close> and the macros on it: a formatted text on the port \<open>SERIAL1\<close>, initialised before, with interrupts disabled.\<close>

definition serial_print :: "nat \<Rightarrow> 'd bus \<Rightarrow> SerialPort \<Rightarrow> u8 list \<Rightarrow> 'd cpu \<Rightarrow> unit outcome \<times> 'd cpu" where
  "serial_print fuel bus SERIAL1 text =
     without_interrupts (\<lambda>c.
       case SerialPort_write_str fuel bus SERIAL1 text (rest c) of
         Done d \<Rightarrow> (Done (), c\<lparr>rest := d\<rparr>) | Panic m \<Rightarrow> (Panic m, c) | Hang \<Rightarrow> (Hang, c))"

text \<open>
  \<open>Log::log\<close> of the locked logger: the line \<open>level:    args\<close>, written with interrupts disabled. The device is part of the state
  of the processor.
\<close>

definition log_line :: "u8 list \<Rightarrow> u8 list \<Rightarrow> u8 list" where
  "log_line level args = level @ [0x3A, 0x20, 0x20, 0x20, 0x20] @ args @ [0x0A]"

definition serial_log :: "nat \<Rightarrow> 'd bus \<Rightarrow> SerialLogger \<Rightarrow> u8 list \<Rightarrow> u8 list \<Rightarrow> 'd cpu \<Rightarrow> unit outcome \<times> 'd cpu" where
  "serial_log fuel bus self level args =
     without_interrupts (\<lambda>c.
       case SerialLogger_write_str fuel bus self (log_line level args) (rest c) of
         Done d \<Rightarrow> (Done (), c\<lparr>rest := d\<rparr>) | Panic m \<Rightarrow> (Panic m, c) | Hang \<Rightarrow> (Hang, c))"

section \<open>A transmitter\<close>

text \<open>
  The documented hardware: a write to the data port sends the byte, after which the transmitter is busy for a while, as its
  status says; reading the status takes time. A byte written while it is busy is lost.
\<close>

record uart =
  sent :: "u8 list"
  uart_busy :: nat
  uart_latency :: nat

definition uart_hardware :: "'d bus \<Rightarrow> u16 \<Rightarrow> ('d \<Rightarrow> uart) \<Rightarrow> bool" where
  "uart_hardware bus port view \<longleftrightarrow>
     (\<forall>v d. view (bus_out8 bus port v d) =
        (if uart_busy (view d) = 0 then (view d)\<lparr>sent := sent (view d) @ [v], uart_busy := uart_latency (view d)\<rparr> else view d)) \<and>
     (\<forall>d. bit (fst (bus_in8 bus (port + 5) d)) 5 \<longleftrightarrow> uart_busy (view d) = 0) \<and>
     (\<forall>d. view (snd (bus_in8 bus (port + 5) d)) = (view d)\<lparr>uart_busy := uart_busy (view d) - 1\<rparr>)"

definition expand :: "u8 \<Rightarrow> u8 list" where
  "expand b = (if b = 8 \<or> b = 0x7F then [8, 0x20, 8] else [b])"

lemma bit_32: "bit (32 :: int) i \<longleftrightarrow> i = 5"
proof -
  have "(32 :: int) = push_bit 5 (mask 1)" by simp
  then show ?thesis by (simp only: bit_push_bit_iff bit_mask_iff) auto
qed

lemma output_empty_bit: "(v AND (INPUT_FULL OR OUTPUT_EMPTY)) AND OUTPUT_EMPTY = OUTPUT_EMPTY \<longleftrightarrow> bit v 5"
proof -
  have "(v AND (INPUT_FULL OR OUTPUT_EMPTY)) AND OUTPUT_EMPTY = (if bit v 5 then OUTPUT_EMPTY else 0)"
    unfolding INPUT_FULL_def OUTPUT_EMPTY_def by (rule bit_word_eqI) (auto simp: bit_simps bit_32)
  then show ?thesis by (simp add: OUTPUT_EMPTY_def)
qed

lemma wait_for_ready:
  assumes hw: "uart_hardware bus port view" and "uart_busy (view d) < fuel"
  shows "\<exists>d'. wait_for fuel bus port d = Done d' \<and> view d' = (view d)\<lparr>uart_busy := 0\<rparr>"
  using assms(2)
proof (induction fuel arbitrary: d)
  case (Suc fuel)
  let ?d = "snd (bus_in8 bus (port + 5) d)"
  have r: "bit (fst (bus_in8 bus (port + 5) d)) 5 \<longleftrightarrow> uart_busy (view d) = 0"
    "view ?d = (view d)\<lparr>uart_busy := uart_busy (view d) - 1\<rparr>" using hw by (simp_all add: uart_hardware_def)
  show ?case
  proof (cases "uart_busy (view d) = 0")
    case False
    then have "uart_busy (view ?d) < fuel" using Suc.prems r(2) by simp
    from Suc.IH [OF this] False r show ?thesis
      by (simp add: line_sts_def inb_def split_def Let_def output_empty_bit)
  qed (use r in \<open>simp add: line_sts_def inb_def split_def Let_def output_empty_bit\<close>)
qed simp

definition uart_ready :: "nat \<Rightarrow> uart \<Rightarrow> bool" where
  "uart_ready fuel u \<longleftrightarrow> uart_busy u < fuel \<and> uart_latency u < fuel"

lemma send_byte:
  assumes hw: "uart_hardware bus port view" and r: "uart_ready fuel (view d)"
  shows "\<exists>d'. bindO (wait_for fuel bus port d) (\<lambda>d. Done (outb bus port b d)) = Done d' \<and>
    sent (view d') = sent (view d) @ [b] \<and> uart_ready fuel (view d')"
proof -
  obtain d1 where d1: "wait_for fuel bus port d = Done d1" "view d1 = (view d)\<lparr>uart_busy := 0\<rparr>"
    using wait_for_ready [OF hw, of d fuel] r by (auto simp: uart_ready_def)
  then show ?thesis using hw r by (simp add: uart_hardware_def outb_def uart_ready_def)
qed

lemma SerialPort_send_sends:
  assumes hw: "uart_hardware bus port view" and r: "uart_ready fuel (view d)"
  shows "\<exists>d'. SerialPort_send fuel bus port b d = Done d' \<and> sent (view d') = sent (view d) @ expand b \<and> uart_ready fuel (view d')"
proof (cases "b = 8 \<or> b = 0x7F")
  case True
  obtain d1 where d1: "bindO (wait_for fuel bus port d) (\<lambda>d. Done (outb bus port 8 d)) = Done d1"
      "sent (view d1) = sent (view d) @ [8]" "uart_ready fuel (view d1)" using send_byte [OF hw r] by blast
  obtain d2 where d2: "bindO (wait_for fuel bus port d1) (\<lambda>d. Done (outb bus port 0x20 d)) = Done d2"
      "sent (view d2) = sent (view d1) @ [0x20]" "uart_ready fuel (view d2)" using send_byte [OF hw d1(3)] by blast
  obtain d3 where d3: "bindO (wait_for fuel bus port d2) (\<lambda>d. Done (outb bus port 8 d)) = Done d3"
      "sent (view d3) = sent (view d2) @ [8]" "uart_ready fuel (view d3)" using send_byte [OF hw d2(3)] by blast
  have "SerialPort_send fuel bus port b d =
      bindO (bindO (wait_for fuel bus port d) (\<lambda>d. Done (outb bus port 8 d))) (\<lambda>d.
      bindO (bindO (wait_for fuel bus port d) (\<lambda>d. Done (outb bus port 0x20 d))) (\<lambda>d.
      bindO (wait_for fuel bus port d) (\<lambda>d. Done (outb bus port 8 d))))"
    using True by (simp add: SerialPort_send_def bindO_assoc Let_def)
  then show ?thesis using d1 d2 d3 True by (simp add: expand_def)
next
  case False
  then show ?thesis using send_byte [OF hw r, of b] by (simp add: SerialPort_send_def expand_def)
qed

lemma write_str_sends:
  assumes hw: "uart_hardware bus port view" and "uart_ready fuel (view d)"
  shows "\<exists>d'. forO (SerialPort_send fuel bus port) bs d = Done d' \<and> sent (view d') = sent (view d) @ concat (map expand bs) \<and> uart_ready fuel (view d')"
  using assms(2)
proof (induction bs arbitrary: d)
  case (Cons b bs)
  obtain d1 where "SerialPort_send fuel bus port b d = Done d1" "sent (view d1) = sent (view d) @ expand b" "uart_ready fuel (view d1)"
    using SerialPort_send_sends [OF hw Cons.prems] by blast
  then show ?case using Cons.IH [of d1] by auto
qed simp

section \<open>Properties\<close>

text \<open>
  C35. A message logged on the serial port is sent completely and in order, as the line with its level, with every backspace
  sent as backspace, space, backspace; no byte is lost however long the transmitter is busy after each of them, and
  interrupts are afterwards enabled if and only if they were before. The same holds for \<open>serial_print\<close>.
\<close>

theorem serial_log_line:
  assumes hw: "uart_hardware bus (sl_port lg) view" and r: "uart_ready fuel (view (rest c))"
  shows "(\<exists>c'. serial_log fuel bus lg level args c = (Done (), c') \<and>
      sent (view (rest c')) = sent (view (rest c)) @ concat (map expand (log_line level args)) \<and>
      (interrupts_enabled c' \<longleftrightarrow> interrupts_enabled c)) \<and>
    (\<exists>c'. serial_print fuel bus (sl_port lg) text c = (Done (), c') \<and>
      sent (view (rest c')) = sent (view (rest c)) @ concat (map expand text) \<and>
      (interrupts_enabled c' \<longleftrightarrow> interrupts_enabled c))"
proof -
  have log: "SerialLogger_write_str fuel bus lg = forO (SerialPort_send fuel bus (sl_port lg))"
    by (simp add: SerialLogger_write_str_def SerialLogger_send_def [abs_def] fun_eq_iff)
  obtain d1 where d1: "SerialLogger_write_str fuel bus lg (log_line level args) (rest c) = Done d1"
      "sent (view d1) = sent (view (rest c)) @ concat (map expand (log_line level args))"
    unfolding log using write_str_sends [OF hw r] by blast
  obtain d2 where d2: "SerialPort_write_str fuel bus (sl_port lg) text (rest c) = Done d2"
      "sent (view d2) = sent (view (rest c)) @ concat (map expand text)"
    unfolding SerialPort_write_str_def using write_str_sends [OF hw r] by blast
  have "\<exists>c'. serial_log fuel bus lg level args c = (Done (), c') \<and> rest c' = d1 \<and> (interrupts_enabled c' \<longleftrightarrow> interrupts_enabled c)"
    unfolding serial_log_def by (rule without_interrupts_device [where f = "SerialLogger_write_str fuel bus lg (log_line level args)", OF d1(1) refl])
  moreover have "\<exists>c'. serial_print fuel bus (sl_port lg) text c = (Done (), c') \<and> rest c' = d2 \<and> (interrupts_enabled c' \<longleftrightarrow> interrupts_enabled c)"
    unfolding serial_print_def by (rule without_interrupts_device [where f = "SerialPort_write_str fuel bus (sl_port lg) text", OF d2(1) refl])
  ultimately show ?thesis using d1(2) d2(2) by (elim exE conjE) auto
qed

section \<open>A sample transmitter\<close>

definition uart_sample :: "uart bus" where
  "uart_sample =
     \<lparr>bus_out8 = \<lambda>p v d. if p = 0x3F8 \<and> uart_busy d = 0 then d\<lparr>sent := sent d @ [v], uart_busy := uart_latency d\<rparr> else d,
      bus_out16 = \<lambda>p v d. d, bus_out32 = \<lambda>p v d. d,
      bus_in8 = \<lambda>p d. (if uart_busy d = 0 then 0x60 else 0, d\<lparr>uart_busy := uart_busy d - 1\<rparr>), bus_in16 = \<lambda>p d. (0, d), bus_in32 = \<lambda>p d. (0, d)\<rparr>"

theorem serial_log_line_witness:
  "\<exists>c'. serial_log 10 uart_sample \<lparr>sl_port = 0x3F8\<rparr> [0x49] [0x41, 8] \<lparr>rflags = 0x202, rest = \<lparr>sent = [], uart_busy = 2, uart_latency = 4\<rparr>\<rparr> =
      (Done (), c') \<and> sent (rest c') = [0x49, 0x3A, 0x20, 0x20, 0x20, 0x20, 0x41, 8, 0x20, 8, 0x0A] \<and> interrupts_enabled c'"
proof -
  have hw: "uart_hardware uart_sample (sl_port \<lparr>sl_port = 0x3F8\<rparr>) id" by (simp add: uart_hardware_def uart_sample_def)
  have r: "uart_ready 10 (id (rest \<lparr>rflags = 0x202, rest = \<lparr>sent = [], uart_busy = 2, uart_latency = 4\<rparr>\<rparr>))" by (simp add: uart_ready_def)
  from serial_log_line [OF hw r, of "[0x49]" "[0x41, 8]" "[]"] show ?thesis
    by (auto simp: log_line_def expand_def interrupts_enabled_def)
qed

end
