(* ===== verification/Apic.thy ===== *)
theory Apic
  imports Chrono Bits Interrupt_Flag Timer Addr
begin

text \<open>
  The interrupt controllers (\<^verbatim>\<open>src/apic.rs\<close>), with the volatile accesses and the time-stamp counter of \<^verbatim>\<open>shared_lib/src/lib.rs\<close>. The hardware
  behind ports, memory-mapped registers and counter is a parameter with state \<open>'d\<close>. Waiting loops run with fuel.
\<close>

section \<open>Memory-mapped registers and the counter\<close>

record 'd mmio =
  mm_read32 :: "u64 \<Rightarrow> 'd \<Rightarrow> u32 \<times> 'd"
  mm_write32 :: "u64 \<Rightarrow> u32 \<Rightarrow> 'd \<Rightarrow> 'd"
  rdtsc :: "'d \<Rightarrow> (u32 \<times> u32) \<times> 'd"

definition read_u32_ptr :: "'d mmio \<Rightarrow> u64 \<Rightarrow> u32 \<Rightarrow> 'd \<Rightarrow> u32 \<times> 'd" where
  "read_u32_ptr mm ptr offset d = mm_read32 mm (ptr + ucast offset) d"

definition write_u32_ptr :: "'d mmio \<Rightarrow> u64 \<Rightarrow> u32 \<Rightarrow> u32 \<Rightarrow> 'd \<Rightarrow> 'd" where
  "write_u32_ptr mm ptr offset value d = mm_write32 mm (ptr + ucast offset) value d"

definition get_tsc :: "'d mmio \<Rightarrow> 'd \<Rightarrow> u64 \<times> 'd" where
  "get_tsc mm d = (let ((edx, eax), d) = rdtsc mm d in (ucast eax OR push_bit 32 (ucast edx), d))"

section \<open>The code\<close>

definition PIC_1_OFFSET :: u8 where "PIC_1_OFFSET = 32"

datatype InterruptIndex = TimerIndex | KeyboardIndex | SpuriousIndex

primrec as_u8 :: "InterruptIndex \<Rightarrow> u8" where
  "as_u8 TimerIndex = PIC_1_OFFSET"
| "as_u8 KeyboardIndex = PIC_1_OFFSET + 1"
| "as_u8 SpuriousIndex = 39"

definition as_usize :: "InterruptIndex \<Rightarrow> usize" where
  "as_usize i = ucast (as_u8 i)"

definition APIC_APICID :: u32 where "APIC_APICID = 0x20"
definition APIC_TASKPRIOR :: u32 where "APIC_TASKPRIOR = 0x80"
definition APIC_EOI :: u32 where "APIC_EOI = 0x0B0"
definition APIC_LDR :: u32 where "APIC_LDR = 0x0D0"
definition APIC_DFR :: u32 where "APIC_DFR = 0x0E0"
definition APIC_SPURIOUS :: u32 where "APIC_SPURIOUS = 0x0F0"
definition APIC_LVT_TMR :: u32 where "APIC_LVT_TMR = 0x320"
definition APIC_LVT_PERF :: u32 where "APIC_LVT_PERF = 0x340"
definition APIC_LVT_LINT0 :: u32 where "APIC_LVT_LINT0 = 0x350"
definition APIC_LVT_LINT1 :: u32 where "APIC_LVT_LINT1 = 0x360"
definition APIC_TMRINITCNT :: u32 where "APIC_TMRINITCNT = 0x380"
definition APIC_TMRCURRCNT :: u32 where "APIC_TMRCURRCNT = 0x390"
definition APIC_TMRDIV :: u32 where "APIC_TMRDIV = 0x3E0"
definition APIC_DISABLE :: u32 where "APIC_DISABLE = 0x10000"
definition APIC_SW_ENABLE :: u32 where "APIC_SW_ENABLE = 0x100"
definition APIC_NMI :: u32 where "APIC_NMI = push_bit 8 4"
definition TMR_PERIODIC :: u32 where "TMR_PERIODIC = 0x20000"

record Apic =
  apic_base :: VirtAddr

definition Apic_new :: Apic where
  "Apic_new = \<lparr>apic_base = VirtAddr_new 0\<rparr>"

definition apic_read :: "'d mmio \<Rightarrow> u32 \<Rightarrow> Apic \<Rightarrow> 'd \<Rightarrow> u32 \<times> 'd" where
  "apic_read mm offset self d = mm_read32 mm (apic_base self + 4 * ucast (offset div 4)) d"

definition apic_write :: "'d mmio \<Rightarrow> u32 \<Rightarrow> u32 \<Rightarrow> Apic \<Rightarrow> 'd \<Rightarrow> 'd" where
  "apic_write mm offset value self d = mm_write32 mm (apic_base self + ucast offset) value d"

definition Apic_initialize :: "'d mmio \<Rightarrow> VirtAddr \<Rightarrow> Apic \<Rightarrow> 'd \<Rightarrow> Apic \<times> 'd" where
  "Apic_initialize mm addr self d =
     (let self = self\<lparr>apic_base := addr\<rparr>;
          d = apic_write mm APIC_DFR 0xFFFFFFFF self d;
          (v, d) = apic_read mm APIC_LDR self d;
          ldr = v AND 0x00FFFFFF;
          ldr = ldr OR 1;
          d = apic_write mm APIC_LDR ldr self d;
          d = apic_write mm APIC_LVT_TMR APIC_DISABLE self d;
          d = apic_write mm APIC_LVT_PERF APIC_NMI self d;
          d = apic_write mm APIC_LVT_LINT0 APIC_DISABLE self d;
          d = apic_write mm APIC_LVT_LINT1 APIC_DISABLE self d
      in (self, apic_write mm APIC_TASKPRIOR 0 self d))"

definition notify_end_of_interrupt :: "'d mmio \<Rightarrow> Apic \<Rightarrow> 'd \<Rightarrow> 'd" where
  "notify_end_of_interrupt mm self d = apic_write mm APIC_EOI 0 self d"

text \<open>The register \<open>edx\<close> that \<open>cpuid\<close> leaves is the argument.\<close>

definition is_tsc_constant :: "u32 \<Rightarrow> bool" where
  "is_tsc_constant edx \<longleftrightarrow> edx AND 0x100 = 0x100"

text \<open>The readings of \<open>pit_calibrate_tsc\<close>; \<open>pitcnt\<close> is a \<open>u16\<close>, as it is compared with one.\<close>

record pit_reading =
  pr_tsc :: u64
  pr_t2 :: u64
  pr_min :: u64
  pr_max :: u64
  pr_cnt :: u16

fun pit_loop :: "nat \<Rightarrow> 'd bus \<Rightarrow> 'd mmio \<Rightarrow> pit_reading \<Rightarrow> 'd \<Rightarrow> (pit_reading \<times> 'd) outcome" where
  "pit_loop 0 bus mm r d = Hang"
| "pit_loop (Suc fuel) bus mm r d =
     (let (v, d) = Port_read bus 0x61 d
      in if v AND 0x20 = 0 then
           let (t2, d) = get_tsc mm d;
               delta = t2 - pr_tsc r
           in pit_loop fuel bus mm
                \<lparr>pr_tsc = t2, pr_t2 = t2, pr_min = (if delta < pr_min r then delta else pr_min r),
                 pr_max = (if pr_max r < delta then delta else pr_max r), pr_cnt = pr_cnt r + 1\<rparr> d
         else Done (r, d))"

definition pit_calibrate_tsc :: "nat \<Rightarrow> 'd bus \<Rightarrow> 'd mmio \<Rightarrow> u32 \<Rightarrow> u64 \<Rightarrow> u16 \<Rightarrow> 'd \<Rightarrow> (u64 \<times> 'd) outcome" where
  "pit_calibrate_tsc fuel bus mm latch ms loop_min d =
     (let pit_channel2_gate = Port_new 0x61;
          (v, d) = Port_read bus pit_channel2_gate d;
          d = Port_write bus pit_channel2_gate ((v AND 0xfd) OR 0x1) d;
          d = Port_write bus (Port_new 0x43) 0xb0 d;
          d = Port_write bus (Port_new 0x42) (ucast (latch AND 0xff)) d;
          d = Port_write bus (Port_new 0x42) (ucast (drop_bit 8 latch)) d;
          (tsc, d) = get_tsc mm d;
          t1 = tsc
      in bindO (pit_loop fuel bus mm \<lparr>pr_tsc = tsc, pr_t2 = tsc, pr_min = 0xFFFFFFFFFFFFFFFF, pr_max = 0, pr_cnt = 0\<rparr> d) (\<lambda>(r, d).
         if pr_cnt r < loop_min \<or> 10 * pr_min r < pr_max r then Done (0xFFFFFFFFFFFFFFFF, d)
         else if ms = 0 then Panic ''attempt to divide by zero''
         else Done ((pr_t2 r - t1) div ms, d)))"

fun tsc_ref_retries :: "nat \<Rightarrow> 'd mmio \<Rightarrow> u64 \<Rightarrow> u32 \<Rightarrow> 'd \<Rightarrow> (u64 \<times> u32) \<times> 'd" where
  "tsc_ref_retries 0 mm apic_base_ptr apic_tmr d = ((0xFFFFFFFFFFFFFFFF, apic_tmr), d)"
| "tsc_ref_retries (Suc n) mm apic_base_ptr apic_tmr d =
     (let (t1, d) = get_tsc mm d;
          (apic_tmr, d) = read_u32_ptr mm apic_base_ptr APIC_TMRCURRCNT d;
          (t2, d) = get_tsc mm d
      in if t2 - t1 < 0x20000 then ((t2, apic_tmr), d) else tsc_ref_retries n mm apic_base_ptr apic_tmr d)"

definition tsc_read_apic_ref :: "'d mmio \<Rightarrow> VirtAddr \<Rightarrow> 'd \<Rightarrow> (u64 \<times> u32) \<times> 'd" where
  "tsc_read_apic_ref mm local_apic d = tsc_ref_retries 5 mm local_apic 0 d"

definition calc_apic_timer_ref :: "u64 \<Rightarrow> u64 \<Rightarrow> u64 \<Rightarrow> u64 outcome" where
  "calc_apic_timer_ref deltatsc pm1 pm2 =
     (if pm1 = 0 \<and> pm2 = 0 then Done 0xFFFFFFFFFFFFFFFF
      else let pm2 = (if pm2 < pm1 then pm2 + push_bit 24 1 else pm2);
               pm2 = pm2 - pm1;
               tmp = pm2 * 1000000000;
               tmp = tmp div 3579545
           in if tmp = 0 then Panic ''attempt to divide by zero'' else Done (deltatsc div tmp))"

record calibration =
  cal_latch :: u32
  cal_ms :: u64
  cal_loopmin :: u16
  tsc_pit_min :: u64
  tsc_ref_min :: u64

text \<open>The rounds of the calibration: \<open>Some\<close> is an early return.\<close>

fun calibration_rounds :: "nat \<Rightarrow> 'd bus \<Rightarrow> 'd mmio \<Rightarrow> VirtAddr \<Rightarrow> nat list \<Rightarrow> calibration \<Rightarrow> 'd \<Rightarrow> (u64 option \<times> calibration \<times> 'd) outcome" where
  "calibration_rounds fuel bus mm local_apic [] c d = Done (None, c, d)"
| "calibration_rounds fuel bus mm local_apic (i # is) c d =
     (let ((tsc1, ref1), d) = tsc_read_apic_ref mm local_apic d
      in bindO (pit_calibrate_tsc fuel bus mm (cal_latch c) (cal_ms c) (cal_loopmin c) d) (\<lambda>(tsc_pit_khz, d).
         let ((tsc2, ref2), d) = tsc_read_apic_ref mm local_apic d;
             c = c\<lparr>tsc_pit_min := min (tsc_pit_min c) tsc_pit_khz\<rparr>
         in if tsc1 = 0xFFFFFFFFFFFFFFFF \<or> tsc2 = 0xFFFFFFFFFFFFFFFF then calibration_rounds fuel bus mm local_apic is c d
            else bindO (calc_apic_timer_ref ((tsc2 - tsc1) * 1000000) (ucast ref1) (ucast ref2)) (\<lambda>tsc2.
              let c = c\<lparr>tsc_ref_min := min (tsc_ref_min c) tsc2\<rparr>
              in if tsc_ref_min c = 0 then Panic ''attempt to divide by zero''
                 else let delta = tsc_pit_min c * 100 div tsc_ref_min c
                      in if 90 \<le> delta \<and> delta \<le> 110 then Done (Some (tsc_ref_min c), c, d)
                         else let c = (if i = 1 \<and> tsc_pit_min c = 0xFFFFFFFFFFFFFFFF
                                       then c\<lparr>cal_latch := ucast (1193182 div (1000 div 50) :: u64), cal_ms := 50, cal_loopmin := 5000\<rparr> else c)
                              in calibration_rounds fuel bus mm local_apic is c d)))"

definition pit_hpet_ptimer_calibrate_cpu :: "nat \<Rightarrow> 'd bus \<Rightarrow> 'd mmio \<Rightarrow> VirtAddr \<Rightarrow> 'd \<Rightarrow> (u64 \<times> 'd) outcome" where
  "pit_hpet_ptimer_calibrate_cpu fuel bus mm local_apic d =
     (let c = \<lparr>cal_latch = ucast (1193182 div (1000 div 10) :: u64), cal_ms = 10, cal_loopmin = 1000,
               tsc_pit_min = 0xFFFFFFFFFFFFFFFF, tsc_ref_min = 0xFFFFFFFFFFFFFFFF\<rparr>
      in bindO (calibration_rounds fuel bus mm local_apic [0, 1, 2] c d) (\<lambda>(r, c, d).
         case r of
           Some khz \<Rightarrow> Done (khz, d)
         | None \<Rightarrow>
             if tsc_pit_min c = 0xFFFFFFFFFFFFFFFF then
               (if tsc_ref_min c = 0xFFFFFFFFFFFFFFFF then Panic ''Failed to calibrate TSC against PIT and APIC''
                else Done (tsc_ref_min c, d))
             else Done (tsc_pit_min c, d)))"

definition disable_pic :: "'d bus \<Rightarrow> 'd \<Rightarrow> 'd" where
  "disable_pic bus d =
     (let p1 = Port_new 0x21; p2 = Port_new 0xA1;
          d = Port_write bus p1 0xff d
      in Port_write bus p2 0xff d)"

definition read_io_apic :: "'d mmio \<Rightarrow> u64 \<Rightarrow> u32 \<Rightarrow> 'd \<Rightarrow> u32 \<times> 'd" where
  "read_io_apic mm io_apic register d =
     (let d = write_u32_ptr mm io_apic 0 (register AND 0xff) d in read_u32_ptr mm io_apic 0x10 d)"

definition write_io_apic :: "'d mmio \<Rightarrow> u64 \<Rightarrow> u32 \<Rightarrow> u32 \<Rightarrow> 'd \<Rightarrow> 'd" where
  "write_io_apic mm io_apic register value d =
     (let d = write_u32_ptr mm io_apic 0 (register AND 0xff) d in write_u32_ptr mm io_apic 0x10 value d)"

record ApicAddresses =
  local_apic_addr :: VirtAddr
  io_apic_addr :: VirtAddr

text \<open>
  What \<open>initialize_apic\<close> works on: the devices, the base register of the local controller (\<open>MSR 1bh\<close>) and the global \<open>APIC\<close>, on a
  processor with its flags register.
\<close>

record 'd platform =
  plat_dev :: 'd
  IA32_APIC_BASE :: u64
  APIC :: Apic

record measures =
  full_second_passing :: bool
  first_measure :: u32
  second_measure :: u32
  third_measure :: u32

text \<open>One round of the \<open>if\<close> cascade: \<open>None\<close> is \<open>break\<close>.\<close>

definition next_measure :: "u32 \<Rightarrow> measures \<Rightarrow> measures option" where
  "next_measure ticks_in_1s m =
     (if \<not> full_second_passing m then Some (m\<lparr>full_second_passing := True\<rparr>)
      else if first_measure m = 0 then Some (m\<lparr>first_measure := ticks_in_1s\<rparr>)
      else if second_measure m = 0 then Some (m\<lparr>second_measure := ticks_in_1s\<rparr>)
      else if third_measure m = 0 then Some (m\<lparr>third_measure := ticks_in_1s\<rparr>)
      else None)"

fun measure_loop ::
    "nat \<Rightarrow> nat \<Rightarrow> 'd bus \<Rightarrow> 'd mmio \<Rightarrow> (int \<Rightarrow> u32 \<Rightarrow> u32 \<Rightarrow> u32 \<Rightarrow> u32 \<Rightarrow> u32 \<Rightarrow> 't option) \<Rightarrow> u64 \<Rightarrow> 't \<Rightarrow> measures \<Rightarrow> 'd \<Rightarrow> (measures \<times> 'd) outcome" where
  "measure_loop fuel 0 bus mm ymd_hms base date_time m d = Hang"
| "measure_loop fuel (Suc n) bus mm ymd_hms base date_time m d =
     bindO (read_rtc fuel bus ymd_hms d) (\<lambda>(new_date_time, d).
     if date_time \<noteq> new_date_time then
       let d = write_u32_ptr mm base APIC_LVT_TMR APIC_DISABLE d;
           (v, d) = read_u32_ptr mm base APIC_TMRCURRCNT d;
           ticks_in_1s = 0xFFFFFFFF - v
       in (case next_measure ticks_in_1s m of
             None \<Rightarrow> Done (m, d)
           | Some m \<Rightarrow>
               let d = write_u32_ptr mm base APIC_LVT_TMR (ucast (as_u8 TimerIndex)) d;
                   d = write_u32_ptr mm base APIC_TMRINITCNT 0xFFFFFFFF d
               in measure_loop fuel n bus mm ymd_hms base new_date_time m d)
     else measure_loop fuel n bus mm ymd_hms base date_time m d)"

text \<open>The timer and the keyboard entry of the I/O controller, after the measurements.\<close>

definition start_timer :: "'d mmio \<Rightarrow> u64 \<Rightarrow> measures \<Rightarrow> 'd \<Rightarrow> 'd" where
  "start_timer mm base m d =
     (let avg_ticks = (ucast (first_measure m) + ucast (second_measure m) + ucast (third_measure m)) div 3 :: u64;
          timer_value = avg_ticks div ucast TIMER_FREQUENCY;
          d = write_u32_ptr mm base APIC_TMRINITCNT (ucast timer_value) d
      in write_u32_ptr mm base APIC_LVT_TMR (ucast (as_u8 TimerIndex) OR TMR_PERIODIC) d)"

definition keyboard_entry :: "u64 \<Rightarrow> u64" where
  "keyboard_entry low_reg =
     (let low_reg = set_bits_u64 low_reg (ucast (as_u8 KeyboardIndex)) 0;
          low_reg = set_bits_u64 low_reg 0 8;
          low_reg = set_bit_u64 low_reg 11 False;
          low_reg = set_bit_u64 low_reg 13 False;
          low_reg = set_bit_u64 low_reg 15 False
      in set_bit_u64 low_reg 16 False)"

definition route_keyboard :: "'d mmio \<Rightarrow> u64 \<Rightarrow> u64 \<Rightarrow> 'd \<Rightarrow> 'd" where
  "route_keyboard mm base io_apic_base d =
     (let (local_apic_id, d) = read_u32_ptr mm base APIC_APICID d;
          (version, d) = read_io_apic mm io_apic_base 0x1 d;
          (v, d) = read_io_apic mm io_apic_base 0x12 d;
          low_reg = keyboard_entry (ucast v);
          d = write_io_apic mm io_apic_base 0x12 (ucast low_reg) d
      in write_io_apic mm io_apic_base 0x13 local_apic_id d)"

definition initialize_apic ::
    "nat \<Rightarrow> 'd bus \<Rightarrow> 'd mmio \<Rightarrow> (int \<Rightarrow> u32 \<Rightarrow> u32 \<Rightarrow> u32 \<Rightarrow> u32 \<Rightarrow> u32 \<Rightarrow> 't option) \<Rightarrow> ApicAddresses
      \<Rightarrow> 'd platform cpu \<Rightarrow> 'd platform cpu outcome" where
  "initialize_apic fuel bus mm ymd_hms apic_addrs c =
     (let p = rest c;
          (apic, d) = Apic_initialize mm (local_apic_addr apic_addrs) (APIC p) (plat_dev p);
          msr = IA32_APIC_BASE p OR push_bit 11 1;
          c = cli c;
          base = local_apic_addr apic_addrs
      in bindO (read_rtc fuel bus ymd_hms d) (\<lambda>(date_time, d).
         let d = write_u32_ptr mm base APIC_TMRDIV 0x03 d;
             (v, d) = read_u32_ptr mm base APIC_SPURIOUS d;
             d = write_u32_ptr mm base APIC_SPURIOUS (v OR APIC_SW_ENABLE) d
         in bindO (measure_loop fuel fuel bus mm ymd_hms base date_time
                     \<lparr>full_second_passing = False, first_measure = 0, second_measure = 0, third_measure = 0\<rparr> d) (\<lambda>(m, d).
            let d = start_timer mm base m d;
                d = route_keyboard mm base (io_apic_addr apic_addrs) d
            in Done (sti (c\<lparr>rest := \<lparr>plat_dev = d, IA32_APIC_BASE = msr, APIC = apic\<rparr>\<rparr>)))))"

section \<open>The controllers\<close>

text \<open>
  The documented hardware: the registers of the local controller that are used below keep what is written, and the I/O controller
  has a register that selects another one, which a second address reads and writes.
\<close>

record apic_view =
  lapic :: "u32 \<Rightarrow> u32"
  ioregsel :: u32
  ioapic :: "u32 \<Rightarrow> u32"

definition apic_hardware :: "'d mmio \<Rightarrow> u64 \<Rightarrow> u64 \<Rightarrow> ('d \<Rightarrow> apic_view) \<Rightarrow> bool" where
  "apic_hardware mm base io view \<longleftrightarrow>
     (\<forall>off v d. off \<in> {APIC_LVT_TMR, APIC_TMRINITCNT} \<longrightarrow> view (mm_write32 mm (base + ucast off) v d) = (view d)\<lparr>lapic := (lapic (view d))(off := v)\<rparr>) \<and>
     (\<forall>d. mm_read32 mm (base + ucast APIC_APICID) d = (lapic (view d) APIC_APICID, d)) \<and>
     (\<forall>v d. view (mm_write32 mm io v d) = (view d)\<lparr>ioregsel := v\<rparr>) \<and>
     (\<forall>v d. view (mm_write32 mm (io + 0x10) v d) = (view d)\<lparr>ioapic := (ioapic (view d))(ioregsel (view d) := v)\<rparr>) \<and>
     (\<forall>d. fst (mm_read32 mm (io + 0x10) d) = ioapic (view d) (ioregsel (view d)) \<and> view (snd (mm_read32 mm (io + 0x10) d)) = view d)"

lemma io_apic_access:
  assumes "apic_hardware mm base io view"
  shows "fst (read_io_apic mm io r d) = ioapic (view d) (r AND 0xff)"
    "view (snd (read_io_apic mm io r d)) = (view d)\<lparr>ioregsel := r AND 0xff\<rparr>"
    "view (write_io_apic mm io r v d) = (view d)\<lparr>ioregsel := r AND 0xff, ioapic := (ioapic (view d))(r AND 0xff := v)\<rparr>"
  using assms by (simp_all add: apic_hardware_def read_io_apic_def write_io_apic_def read_u32_ptr_def write_u32_ptr_def Let_def)

lemma bit_33: "bit (33 :: int) i \<longleftrightarrow> i = 0 \<or> i = 5"
proof -
  have "(33 :: int) = push_bit 5 (mask 1) OR mask 1" by simp
  then show ?thesis by (simp only: bit_or_iff bit_push_bit_iff bit_mask_iff) auto
qed

lemma bit_keyboard_entry:
  "bit (keyboard_entry w) i \<longleftrightarrow> (bit w i \<or> i = 0 \<or> i = 5) \<and> i \<notin> {11, 13, 15, 16}"
  by (auto simp: keyboard_entry_def Let_def bit_simps PIC_1_OFFSET_def bit_33)

text \<open>The vector of the keyboard's entry is the one intended if the bits of the old vector are among those of the new one.\<close>

lemma keyboard_vector:
  "take_bit 8 (ucast (keyboard_entry (ucast (v :: u32))) :: u32) = ucast (as_u8 KeyboardIndex) \<longleftrightarrow> (\<forall>i<8. bit v i \<longrightarrow> i = 0 \<or> i = 5)"
proof -
  have "take_bit 8 (ucast (keyboard_entry (ucast v)) :: u32) = ucast (as_u8 KeyboardIndex) \<longleftrightarrow>
      (\<forall>i<32. (i < 8 \<and> (bit v i \<or> i = 0 \<or> i = 5)) = (i = 0 \<or> i = 5))"
    by (auto simp: word_bits_iff bit_simps bit_keyboard_entry PIC_1_OFFSET_def bit_33)
  also have "\<dots> \<longleftrightarrow> (\<forall>i<8. bit v i \<longrightarrow> i = 0 \<or> i = 5)"
  proof
    assume h: "\<forall>i<32. (i < 8 \<and> (bit v i \<or> i = 0 \<or> i = 5)) = (i = 0 \<or> i = 5)"
    show "\<forall>i<8. bit v i \<longrightarrow> i = 0 \<or> i = 5"
    proof (intro allI impI)
      fix i :: nat assume "i < 8" "bit v i"
      then show "i = 0 \<or> i = 5" using h [rule_format, of i] by auto
    qed
  qed auto
  finally show ?thesis .
qed

lemma unat_average:
  fixes a b c :: u32
  shows "unat ((ucast a + ucast b + ucast c) div 3 :: u64) = (unat a + unat b + unat c) div 3" (is "unat (?s div 3) = _")
    "unat (ucast ((ucast a + ucast b + ucast c) div 3 div ucast TIMER_FREQUENCY :: u64) :: u32) = (unat a + unat b + unat c) div 3 div 250"
proof -
  have lt: "unat a < 2 ^ 32" "unat b < 2 ^ 32" "unat c < 2 ^ 32" using unsigned_less [of a, where ?'a = nat] unsigned_less [of b, where ?'a = nat] unsigned_less [of c, where ?'a = nat] by simp_all
  have "?s = of_nat (unat a + unat b + unat c)" by simp
  then have s: "unat ?s = unat a + unat b + unat c" using lt by (simp only:) (rule of_nat_inverse, simp_all)
  then show avg: "unat (?s div 3) = (unat a + unat b + unat c) div 3" by (simp add: unat_div)
  have f: "unat (ucast TIMER_FREQUENCY :: u64) = 250" by (simp add: TIMER_FREQUENCY_def)
  have "unat (?s div 3 div ucast TIMER_FREQUENCY) = (unat a + unat b + unat c) div 3 div 250" by (simp add: unat_div s f)
  moreover have "(unat a + unat b + unat c) div 3 div 250 < 2 ^ 32" using lt by simp
  ultimately show "unat (ucast (?s div 3 div ucast TIMER_FREQUENCY) :: u32) = (unat a + unat b + unat c) div 3 div 250"
    by (simp add: unsigned_ucast_eq unsigned_take_bit_eq take_bit_nat_eq_self)
qed

lemma nat_mod_24:
  fixes a b :: nat
  assumes "a < 2 ^ 24" "b < 2 ^ 24"
  shows "nat ((int a - int b) mod 2 ^ 24) = (if a < b then a + 2 ^ 24 - b else a - b)"
proof (cases "a < b")
  case True
  have "(int a - int b) mod 2 ^ 24 = (int a - int b + 2 ^ 24) mod 2 ^ 24" by simp
  also have "\<dots> = int a - int b + 2 ^ 24" by (rule mod_pos_pos_trivial) (use True assms in auto)
  finally show ?thesis using True by simp
next
  case False
  have "(int a - int b) mod 2 ^ 24 = int a - int b" by (rule mod_pos_pos_trivial) (use False assms in auto)
  then show ?thesis using False by simp
qed

section \<open>Properties\<close>


text \<open>
  The reference frequency: if the counter moved, without wrapping more than once in 24 bits, the result is the
  quotient of the elapsed time-stamp ticks by the nanoseconds that \<open>pm2 - pm1\<close> ticks of a 3.579545 MHz clock take; equal readings
  that are not zero make the function panic with a division by zero.
\<close>

theorem calc_apic_timer_ref_value:
  fixes pm1 pm2 deltatsc :: u64
  assumes "unat pm1 < 2 ^ 24" "unat pm2 < 2 ^ 24"
  shows "(pm1 \<noteq> pm2 \<longrightarrow> (\<exists>r. calc_apic_timer_ref deltatsc pm1 pm2 = Done r \<and>
      unat r = unat deltatsc div (nat ((int (unat pm2) - int (unat pm1)) mod 2 ^ 24) * 1000000000 div 3579545))) \<and>
    (pm1 = pm2 \<and> pm1 \<noteq> 0 \<longrightarrow> calc_apic_timer_ref deltatsc pm1 pm2 = Panic ''attempt to divide by zero'') \<and>
    calc_apic_timer_ref deltatsc 0 0 = Done 0xFFFFFFFFFFFFFFFF"
proof -
  define n where "n = nat ((int (unat pm2) - int (unat pm1)) mod 2 ^ 24)"
  define e where "e = (if pm2 < pm1 then pm2 + push_bit 24 1 else pm2) - pm1"
  have e: "e = of_nat n"
  proof (cases "pm2 < pm1")
    case True
    then have lt: "unat pm2 < unat pm1" by (simp add: word_less_nat_alt)
    then have "n = unat pm2 + 2 ^ 24 - unat pm1" unfolding n_def nat_mod_24 [OF assms(2, 1)] by simp
    then have "of_nat n = of_nat (unat pm2 + 2 ^ 24) - (of_nat (unat pm1) :: u64)" using assms lt by (simp add: of_nat_diff)
    then show ?thesis using True by (simp add: e_def push_bit_eq_mult)
  next
    case False
    then have le: "unat pm1 \<le> unat pm2" by (simp add: word_less_nat_alt)
    then have "n = unat pm2 - unat pm1" unfolding n_def nat_mod_24 [OF assms(2, 1)] by simp
    then show ?thesis using False le by (simp add: e_def of_nat_diff)
  qed
  have n: "n < 2 ^ 24" by (simp add: n_def nat_less_iff)
  have "e * 1000000000 = of_nat (n * 1000000000)" by (simp add: e)
  then have "unat (e * 1000000000) = n * 1000000000" using n by (simp only:) (rule of_nat_inverse, simp_all)
  then have t: "unat (e * 1000000000 div 3579545) = n * 1000000000 div 3579545" by (simp add: unat_div)
  have z: "e * 1000000000 div 3579545 = 0 \<longleftrightarrow> n = 0"
  proof -
    have "e * 1000000000 div 3579545 = 0 \<longleftrightarrow> unat (e * 1000000000 div 3579545) = 0" by (rule unat_eq_zero [symmetric])
    also have "\<dots> \<longleftrightarrow> n = 0" unfolding t by (cases n) (simp_all add: div_eq_0_iff)
    finally show ?thesis .
  qed
  have neq: "n = 0 \<longleftrightarrow> pm1 = pm2"
    unfolding n_def nat_mod_24 [OF assms(2, 1)] using assms by (auto simp: word_unat_eq_iff)
  have run: "calc_apic_timer_ref deltatsc pm1 pm2 =
      (if pm1 = 0 \<and> pm2 = 0 then Done 0xFFFFFFFFFFFFFFFF
       else if e * 1000000000 div 3579545 = 0 then Panic ''attempt to divide by zero'' else Done (deltatsc div (e * 1000000000 div 3579545)))"
    by (simp add: calc_apic_timer_ref_def Let_def e_def)
  show ?thesis unfolding run using z neq t by (auto simp: unat_div n_def calc_apic_timer_ref_def)
qed

section \<open>Sample controllers\<close>

definition mmio_sample :: "apic_view mmio" where
  "mmio_sample =
     \<lparr>mm_read32 = \<lambda>a d. (if a = 0xFEC00010 then ioapic d (ioregsel d) else lapic d (ucast (a - 0xFEE00000)), d),
      mm_write32 = \<lambda>a v d. if a = 0xFEC00000 then d\<lparr>ioregsel := v\<rparr>
        else if a = 0xFEC00010 then d\<lparr>ioapic := (ioapic d)(ioregsel d := v)\<rparr>
        else d\<lparr>lapic := (lapic d)(ucast (a - 0xFEE00000) := v)\<rparr>,
      rdtsc = \<lambda>d. ((0, 0), d)\<rparr>"

definition view_sample :: apic_view where
  "view_sample = \<lparr>lapic = \<lambda>r. if r = APIC_APICID then 0x01000000 else 0, ioregsel = 0, ioapic = \<lambda>r. 0x10000\<rparr>"


theorem calc_apic_timer_ref_value_witness:
  "(\<exists>r. calc_apic_timer_ref 300000000 0xFFFFF0 0x10 = Done r \<and> unat r = 300000000 div 8939) \<and>
   calc_apic_timer_ref 5 7 7 = Panic ''attempt to divide by zero''"
  using calc_apic_timer_ref_value [of "0xFFFFF0" "0x10" "300000000"] calc_apic_timer_ref_value [of 7 7 5] by simp

end
