(* ===== verification/Logger.thy ===== *)
theory Logger
  imports Byte_Order Interrupt_Flag
begin

text \<open>
  The text console on the framebuffer (\<^verbatim>\<open>shared_lib/src/logger.rs\<close>). A Rust \<open>char\<close> is its code point. The glyphs come from the
  crate \<open>font8x8\<close>: \<open>BASIC_FONTS.get\<close> is the parameter \<open>font\<close>, eight rows of eight pixels, the lowest bit leftmost. The
  framebuffer is the slice \<open>fb\<close>; that memory for the character buffer can be allocated is not in question here.
\<close>

section \<open>The code\<close>

type_synonym rchar = u32

datatype PixelFormat = Rgb | Bgr | Bitmask | BltOnly

record FrameBufferInfo =
  fb_addr :: u64
  fb_size :: usize
  width :: usize
  height :: usize
  pixel_format :: PixelFormat
  stride :: usize

record Logger =
  fb_info :: FrameBufferInfo
  fb :: "u8 list"
  x_pos :: usize
  y_pos :: usize
  char_buffer :: "rchar list list"
  char_buffer_width :: usize
  char_buffer_height :: usize

definition Logger_new :: "FrameBufferInfo \<Rightarrow> Logger" where
  "Logger_new info =
     (let fb_slice = replicate (unat (fb_size info)) 0;
          w = (width info - 1) div 8;
          h = (height info - 1) div 8
      in \<lparr>fb_info = info, fb = fb_slice, x_pos = 0, y_pos = 0,
          char_buffer = replicate (unat w) (replicate (unat w) 0), char_buffer_width = w, char_buffer_height = h\<rparr>)"

text \<open>\<open>fb[a..b].copy_from_slice(src)\<close>.\<close>

definition copy_from_slice :: "u8 list \<Rightarrow> usize \<Rightarrow> usize \<Rightarrow> u8 list \<Rightarrow> u8 list outcome" where
  "copy_from_slice bs a b src =
     (if a \<le> b \<and> unat b \<le> length bs \<and> length src = unat b - unat a
      then Done (take (unat a) bs @ src @ drop (unat b) bs) else Panic ''slice'')"

definition write_pixel :: "usize \<Rightarrow> usize \<Rightarrow> u8 \<Rightarrow> Logger \<Rightarrow> Logger outcome" where
  "write_pixel x y intensity self =
     (let pixel_offset = y * stride (fb_info self) + x
      in bindO (case pixel_format (fb_info self) of
             Rgb \<Rightarrow> Done [intensity, intensity, intensity div 2, 0]
           | Bgr \<Rightarrow> Done [intensity div 2, intensity, intensity, 0]
           | _ \<Rightarrow> Hang) (\<lambda>color.
         let byte_offset = pixel_offset * 4
         in bindO (copy_from_slice (fb self) byte_offset (byte_offset + 4) color) (\<lambda>bs. Done (self\<lparr>fb := bs\<rparr>))))"

definition write_8x8 :: "u8 list \<Rightarrow> usize \<Rightarrow> usize \<Rightarrow> Logger \<Rightarrow> Logger outcome" where
  "write_8x8 rendered xp yp self =
     forO (\<lambda>y self. let byte = rendered ! y
       in forO (\<lambda>x self.
            let intensity = (if byte AND push_bit x 1 = 0 then 0 else 255)
            in write_pixel (xp + of_nat x) (yp + of_nat y) intensity self) [0..<8] self)
       [0..<length rendered] self"

definition draw_char_buffer :: "(rchar \<Rightarrow> u8 list option) \<Rightarrow> Logger \<Rightarrow> Logger outcome" where
  "draw_char_buffer font self =
     forO (\<lambda>y self. forO (\<lambda>x self.
         if y < length (char_buffer self) \<and> x < length (char_buffer self ! y) then
           bindO (expect_some [] (font (char_buffer self ! y ! x))) (\<lambda>rendered.
           write_8x8 rendered (1 + of_nat x * 8) (1 + of_nat y * 8) self)
         else Panic ''index'')
       [0..<unat (char_buffer_width self)] self) [0..<unat (char_buffer_height self)] self"

definition carriage_return :: "Logger \<Rightarrow> Logger" where
  "carriage_return self = self\<lparr>x_pos := 0\<rparr>"

definition newline :: "(rchar \<Rightarrow> u8 list option) \<Rightarrow> Logger \<Rightarrow> Logger outcome" where
  "newline font self =
     (let self = carriage_return (self\<lparr>y_pos := y_pos self + 1\<rparr>)
      in if char_buffer_height self \<le> y_pos self then
           let rows = drop 1 (char_buffer self) @ [replicate (unat (char_buffer_width self)) 0]
           in draw_char_buffer font (self\<lparr>char_buffer := rows, y_pos := char_buffer_height self - 1, x_pos := 0\<rparr>)
         else Done self)"

definition Logger_clear :: "Logger \<Rightarrow> Logger outcome" where
  "Logger_clear self =
     (let self = self\<lparr>x_pos := 0, y_pos := 0, fb := replicate (length (fb self)) 0\<rparr>
      in forO (\<lambda>i self.
           if i < length (char_buffer self) then
             Done (self\<lparr>char_buffer := (char_buffer self)[i := replicate (length (char_buffer self ! i)) 0]\<rparr>)
           else Panic ''index'') [0..<unat (char_buffer_width self)] self)"

definition Logger_width :: "Logger \<Rightarrow> usize" where "Logger_width self = width (fb_info self)"
definition Logger_height :: "Logger \<Rightarrow> usize" where "Logger_height self = height (fb_info self)"

definition write_char :: "(rchar \<Rightarrow> u8 list option) \<Rightarrow> rchar \<Rightarrow> Logger \<Rightarrow> Logger outcome" where
  "write_char font c self =
     (if c = 0x0A then newline font self
      else if c = 0x0D then Done (carriage_return self)
      else
        bindO (if char_buffer_width self \<le> x_pos self then newline font self else Done self) (\<lambda>self.
        let y = unat (y_pos self); x = unat (x_pos self) in
        if y < length (char_buffer self) \<and> x < length (char_buffer self ! y) then
          let self = self\<lparr>char_buffer := (char_buffer self)[y := (char_buffer self ! y)[x := c]]\<rparr>;
              xp = 1 + x_pos self * 8; yp = 1 + y_pos self * 8 in
          bindO (if c \<noteq> 0 then
                   (case font c of None \<Rightarrow> Panic ''Failed to render char'' | Some rendered \<Rightarrow> write_8x8 rendered xp yp self)
                 else write_8x8 [0xFF, 0xFF, 0xFF, 0xFF, 0xFF, 0xFF, 0xFF, 0xFF] xp yp self) (\<lambda>self.
          Done (self\<lparr>x_pos := x_pos self + 1\<rparr>))
        else Panic ''index''))"

definition Logger_write_str :: "(rchar \<Rightarrow> u8 list option) \<Rightarrow> rchar list \<Rightarrow> Logger \<Rightarrow> Logger outcome" where
  "Logger_write_str font s self = forO (write_char font) s self"

text \<open>The locked logger: \<open>write_fmt\<close> and \<open>Log::log\<close> write a formatted text with interrupts disabled.\<close>

definition LockedLogger_write_fmt :: "(rchar \<Rightarrow> u8 list option) \<Rightarrow> rchar list \<Rightarrow> Logger cpu \<Rightarrow> unit outcome \<times> Logger cpu" where
  "LockedLogger_write_fmt font text =
     without_interrupts (\<lambda>c.
       case Logger_write_str font text (rest c) of
         Done l \<Rightarrow> (Done (), c\<lparr>rest := l\<rparr>) | Panic m \<Rightarrow> (Panic m, c) | Hang \<Rightarrow> (Hang, c))"

definition LockedLogger_log :: "(rchar \<Rightarrow> u8 list option) \<Rightarrow> rchar list \<Rightarrow> rchar list \<Rightarrow> Logger cpu \<Rightarrow> unit outcome \<times> Logger cpu" where
  "LockedLogger_log font level args =
     without_interrupts (\<lambda>c.
       case Logger_write_str font (level @ [0x3A, 0x20, 0x20, 0x20, 0x20] @ args @ [0x0A]) (rest c) of
         Done l \<Rightarrow> (Done (), c\<lparr>rest := l\<rparr>) | Panic m \<Rightarrow> (Panic m, c) | Hang \<Rightarrow> (Hang, c))"

section \<open>Pixels\<close>

definition pixel_at :: "FrameBufferInfo \<Rightarrow> u8 list \<Rightarrow> nat \<Rightarrow> nat \<Rightarrow> u8 list" where
  "pixel_at info bs x y = take 4 (drop (4 * (y * unat (stride info) + x)) bs)"

definition color_of :: "PixelFormat \<Rightarrow> bool \<Rightarrow> u8 list" where
  "color_of f on = (if on then (if f = Rgb then [255, 255, 127, 0] else [127, 255, 255, 0]) else [0, 0, 0, 0])"

definition text_cols :: "FrameBufferInfo \<Rightarrow> nat" where "text_cols info = (unat (width info) - 1) div 8"
definition text_rows :: "FrameBufferInfo \<Rightarrow> nat" where "text_rows info = (unat (height info) - 1) div 8"

text \<open>
  A mode the console can work in: one of the two formats it draws, room for a character, no more text rows than columns, and a
  framebuffer (smaller than \<open>isize::MAX\<close>, as for every slice) that holds all the scan lines.
\<close>

definition screen_ok :: "FrameBufferInfo \<Rightarrow> bool" where
  "screen_ok info \<longleftrightarrow> (pixel_format info = Rgb \<or> pixel_format info = Bgr) \<and> 9 \<le> unat (width info) \<and> 9 \<le> unat (height info) \<and>
     text_rows info \<le> text_cols info \<and> unat (width info) \<le> unat (stride info) \<and>
     4 * (unat (stride info) * unat (height info)) \<le> unat (fb_size info) \<and> unat (fb_size info) < 2 ^ 63"

lemma pixel_at_write:
  assumes "length color = 4" "4 * (Y * unat (stride info) + X) + 4 \<le> length bs" "x < unat (stride info)" "X < unat (stride info)"
  shows "pixel_at info (take (4 * (Y * unat (stride info) + X)) bs @ color @ drop (4 * (Y * unat (stride info) + X) + 4) bs) x y =
    (if x = X \<and> y = Y then color else pixel_at info bs x y)"
proof -
  define p q where pq: "p = y * unat (stride info) + x" "q = Y * unat (stride info) + X"
  have "p div unat (stride info) = y" "p mod unat (stride info) = x" "q div unat (stride info) = Y" "q mod unat (stride info) = X"
    using assms(3, 4) by (simp_all add: pq)
  then have eq: "p = q \<longleftrightarrow> x = X \<and> y = Y" by (auto simp: pq)
  consider "p < q" | "p = q" | "q < p" by linarith
  then have "take 4 (drop (4 * p) (take (4 * q) bs @ color @ drop (4 * q + 4) bs)) = (if p = q then color else take 4 (drop (4 * p) bs))"
    using assms(1, 2) [folded pq] by cases (auto simp: min_def drop_take)
  then show ?thesis using eq by (simp add: pixel_at_def pq)
qed

lemma unat_of_nat_u64: "n < 2 ^ 64 \<Longrightarrow> unat (of_nat n :: u64) = n"
  by (rule of_nat_inverse) simp_all

text \<open>Byte offsets inside the framebuffer do not wrap around.\<close>

lemma pixel_offset:
  assumes ok: "screen_ok info" and "X < unat (stride info)" "Y < unat (height info)"
  shows "unat ((of_nat Y * stride info + of_nat X) * 4) = 4 * (Y * unat (stride info) + X)"
    "unat ((of_nat Y * stride info + of_nat X) * 4 + 4) = 4 * (Y * unat (stride info) + X) + 4"
    "4 * (Y * unat (stride info) + X) + 4 \<le> unat (fb_size info)"
proof -
  let ?o = "4 * (Y * unat (stride info) + X)"
  have "Y * unat (stride info) + X + 1 \<le> (Y + 1) * unat (stride info)" using assms(2) by simp
  also have "\<dots> \<le> unat (height info) * unat (stride info)" using assms(3) by (intro mult_right_mono) auto
  finally show le: "?o + 4 \<le> unat (fb_size info)" using ok by (simp add: screen_ok_def mult.commute)
  then have lt: "?o + 4 < 2 ^ 64" using ok by (simp add: screen_ok_def)
  have eq: "(of_nat Y * stride info + of_nat X) * 4 = (of_nat ?o :: usize)" "(of_nat Y * stride info + of_nat X) * 4 + 4 = (of_nat (?o + 4) :: usize)"
    by (simp_all add: algebra_simps)
  show "unat ((of_nat Y * stride info + of_nat X) * 4) = ?o" unfolding eq(1) using lt by (intro unat_of_nat_u64) linarith
  show "unat ((of_nat Y * stride info + of_nat X) * 4 + 4) = ?o + 4" unfolding eq(2) using lt by (intro unat_of_nat_u64) linarith
qed

definition intensity :: "bool \<Rightarrow> u8" where "intensity on = (if on then 255 else 0)"

lemma write_pixel_ok:
  assumes ok: "screen_ok (fb_info l)" and len: "length (fb l) = unat (fb_size (fb_info l))"
    and X: "X < unat (stride (fb_info l))" and Y: "Y < unat (height (fb_info l))"
  shows "\<exists>bs. write_pixel (of_nat X) (of_nat Y) (intensity on) l = Done (l\<lparr>fb := bs\<rparr>) \<and> length bs = length (fb l) \<and>
    (\<forall>x y. x < unat (stride (fb_info l)) \<longrightarrow> pixel_at (fb_info l) bs x y =
       (if x = X \<and> y = Y then color_of (pixel_format (fb_info l)) on else pixel_at (fb_info l) (fb l) x y))"
proof -
  let ?i = "fb_info l" and ?a = "(of_nat Y * stride (fb_info l) + of_nat X) * 4 :: usize"
  let ?c = "color_of (pixel_format ?i) on"
  note off = pixel_offset [OF ok X Y]
  have "?a \<le> ?a + 4" by (simp only: word_le_nat_alt off)
  then have "copy_from_slice (fb l) ?a (?a + 4) ?c = Done (take (unat ?a) (fb l) @ ?c @ drop (unat (?a + 4)) (fb l))"
    using off len by (simp add: copy_from_slice_def color_of_def)
  moreover have "(case pixel_format ?i of Rgb \<Rightarrow> Done [intensity on, intensity on, intensity on div 2, 0]
      | Bgr \<Rightarrow> Done [intensity on div 2, intensity on, intensity on, 0] | _ \<Rightarrow> Hang) = Done ?c"
    using ok by (auto simp: screen_ok_def color_of_def intensity_def)
  ultimately have "write_pixel (of_nat X) (of_nat Y) (intensity on) l = Done (l\<lparr>fb := take (unat ?a) (fb l) @ ?c @ drop (unat (?a + 4)) (fb l)\<rparr>)"
    by (simp add: write_pixel_def Let_def)
  moreover have "length ?c = 4" by (simp add: color_of_def)
  ultimately show ?thesis using pixel_at_write [of ?c Y ?i X "fb l"] off len X by (auto simp: min_def)
qed

text \<open>
  What a sequence of writes has painted: \<open>C x y\<close> says whether a pixel was painted, and bright or dark.
\<close>

definition painted :: "Logger \<Rightarrow> (nat \<Rightarrow> nat \<Rightarrow> bool option) \<Rightarrow> Logger \<Rightarrow> bool" where
  "painted l C s \<longleftrightarrow> (\<exists>bs. s = l\<lparr>fb := bs\<rparr> \<and> length bs = length (fb l) \<and>
     (\<forall>x y. x < unat (stride (fb_info l)) \<longrightarrow> pixel_at (fb_info l) bs x y =
        (case C x y of None \<Rightarrow> pixel_at (fb_info l) (fb l) x y | Some on \<Rightarrow> color_of (pixel_format (fb_info l)) on)))"

definition drawable :: "Logger \<Rightarrow> bool" where
  "drawable l \<longleftrightarrow> screen_ok (fb_info l) \<and> length (fb l) = unat (fb_size (fb_info l))"

lemma painted_none: "painted l (\<lambda>_ _. None) l"
  by (auto simp: painted_def intro: exI [of _ "fb l"])

lemma write_pixel_paints:
  assumes l: "drawable l" and s: "painted l C s"
    and X: "X < unat (stride (fb_info l))" and Y: "Y < unat (height (fb_info l))"
  shows "\<exists>s'. write_pixel (of_nat X) (of_nat Y) (intensity on) s = Done s' \<and> painted l (\<lambda>x y. if x = X \<and> y = Y then Some on else C x y) s'"
proof -
  obtain bs where bs: "s = l\<lparr>fb := bs\<rparr>" "length bs = length (fb l)"
    "\<And>x y. x < unat (stride (fb_info l)) \<Longrightarrow> pixel_at (fb_info l) bs x y =
        (case C x y of None \<Rightarrow> pixel_at (fb_info l) (fb l) x y | Some on \<Rightarrow> color_of (pixel_format (fb_info l)) on)"
    using s by (auto simp: painted_def)
  obtain bs' where "write_pixel (of_nat X) (of_nat Y) (intensity on) s = Done (s\<lparr>fb := bs'\<rparr>)" "length bs' = length bs"
    "\<forall>x y. x < unat (stride (fb_info l)) \<longrightarrow> pixel_at (fb_info l) bs' x y =
       (if x = X \<and> y = Y then color_of (pixel_format (fb_info l)) on else pixel_at (fb_info l) bs x y)"
    using write_pixel_ok [of s X Y on] l X Y bs(1, 2) by (auto simp: drawable_def)
  then show ?thesis using bs by (auto simp: painted_def)
qed

definition glyph :: "u8 list \<Rightarrow> nat \<Rightarrow> nat \<Rightarrow> (nat \<Rightarrow> nat \<Rightarrow> bool option) \<Rightarrow> nat \<Rightarrow> nat \<Rightarrow> bool option" where
  "glyph rendered X Y C x y =
     (if X \<le> x \<and> x < X + 8 \<and> Y \<le> y \<and> y < Y + 8 then Some (bit (rendered ! (y - Y)) (x - X)) else C x y)"

lemma and_push_bit: "b AND push_bit i 1 = 0 \<longleftrightarrow> \<not> bit b i" if "i < 8" for b :: u8
  using that by (auto simp: word_bits_iff bit_simps)

lemma write_8x8_paints:
  assumes l: "drawable l" and s: "painted l C s" and len: "length rendered = 8"
    and X: "X + 8 \<le> unat (stride (fb_info l))" and Y: "Y + 8 \<le> unat (height (fb_info l))"
  shows "\<exists>s'. write_8x8 rendered (of_nat X) (of_nat Y) s = Done s' \<and> painted l (glyph rendered X Y C) s'"
proof -
  define G where "G j k x y = (if X \<le> x \<and> x < X + 8 \<and> Y \<le> y \<and> (y < Y + j \<or> y = Y + j \<and> x < X + k)
      then Some (bit (rendered ! (y - Y)) (x - X)) else C x y)" for j k x y
  have inner: "\<exists>s'. forO (\<lambda>x s. let i = if rendered ! j AND push_bit x 1 = 0 then 0 else 255
      in write_pixel (of_nat X + of_nat x) (of_nat Y + of_nat j) i s) [0..<8] s = Done s' \<and> painted l (G j 8) s'"
    if j: "j < 8" and s: "painted l (G j 0) s" for j s
  proof (rule forO_upt [where P = "\<lambda>k. painted l (G j k)", OF _ s])
    fix k s assume k: "k < 8" and s: "painted l (G j k) s"
    have "G j (Suc k) = (\<lambda>x y. if x = X + k \<and> y = Y + j then Some (bit (rendered ! j) k) else G j k x y)"
      using j k by (intro ext) (auto simp: G_def)
    moreover have "(if rendered ! j AND push_bit k 1 = 0 then 0 else 255) = intensity (bit (rendered ! j) k)"
      using and_push_bit [OF k, of "rendered ! j"] by (simp add: intensity_def)
    ultimately show "\<exists>s'. (let i = if rendered ! j AND push_bit k 1 = 0 then 0 else 255
        in write_pixel (of_nat X + of_nat k) (of_nat Y + of_nat j) i s) = Done s' \<and> painted l (G j (Suc k)) s'"
      using write_pixel_paints [OF l s, of "X + k" "Y + j" "bit (rendered ! j) k"] j k X Y by (simp add: Let_def)
  qed
  have "\<exists>s'. write_8x8 rendered (of_nat X) (of_nat Y) s = Done s' \<and> painted l (G 8 0) s'"
    unfolding write_8x8_def len Let_def [of "rendered ! _"]
  proof (rule forO_upt [where P = "\<lambda>j. painted l (G j 0)"])
    fix j s assume j: "j < 8" and s: "painted l (G j 0) s"
    have "G j 8 = G (Suc j) 0" by (intro ext) (auto simp: G_def)
    then show "\<exists>s'. forO (\<lambda>x s. let i = if rendered ! j AND push_bit x 1 = 0 then 0 else 255
      in write_pixel (of_nat X + of_nat x) (of_nat Y + of_nat j) i s) [0..<8] s = Done s' \<and> painted l (G (Suc j) 0) s'"
      using inner [OF j s] by simp
  next
    have "G 0 0 = C" by (intro ext) (auto simp: G_def)
    then show "painted l (G 0 0) s" using s by simp
  qed
  moreover have "G 8 0 = glyph rendered X Y C" by (intro ext) (auto simp: G_def glyph_def)
  ultimately show ?thesis by simp
qed

section \<open>Text on the screen\<close>

definition font_ok :: "(rchar \<Rightarrow> u8 list option) \<Rightarrow> bool" where
  "font_ok font \<longleftrightarrow> font 0 = Some (replicate 8 0) \<and> (\<forall>c g. font c = Some g \<longrightarrow> length g = 8)"

definition in_text :: "FrameBufferInfo \<Rightarrow> nat \<Rightarrow> nat \<Rightarrow> bool" where
  "in_text info x y \<longleftrightarrow> 1 \<le> x \<and> x \<le> 8 * text_cols info \<and> 1 \<le> y \<and> y \<le> 8 * text_rows info"

text \<open>The pixel that a text has at a position of the screen.\<close>

definition text_pixel :: "(rchar \<Rightarrow> u8 list option) \<Rightarrow> rchar list list \<Rightarrow> nat \<Rightarrow> nat \<Rightarrow> bool" where
  "text_pixel font text x y =
     bit (the (font (text ! ((y - 1) div 8) ! ((x - 1) div 8))) ! ((y - 1) mod 8)) ((x - 1) mod 8)"

definition shows_text :: "(rchar \<Rightarrow> u8 list option) \<Rightarrow> rchar list list \<Rightarrow> Logger \<Rightarrow> bool" where
  "shows_text font text l \<longleftrightarrow> (\<forall>x y. in_text (fb_info l) x y \<longrightarrow>
     pixel_at (fb_info l) (fb l) x y = color_of (pixel_format (fb_info l)) (text_pixel font text x y))"

definition console :: "(rchar \<Rightarrow> u8 list option) \<Rightarrow> Logger \<Rightarrow> bool" where
  "console font l \<longleftrightarrow> drawable l \<and> unat (char_buffer_width l) = text_cols (fb_info l) \<and> unat (char_buffer_height l) = text_rows (fb_info l) \<and>
     length (char_buffer l) = text_cols (fb_info l) \<and> (\<forall>row \<in> set (char_buffer l). length row = text_cols (fb_info l) \<and> (\<forall>c \<in> set row. font c \<noteq> None))"

lemma text_bounds:
  assumes "screen_ok info"
  shows "0 < text_cols info" "0 < text_rows info" "text_rows info \<le> text_cols info"
    "c < text_cols info \<Longrightarrow> 1 + 8 * c + 8 \<le> unat (stride info)" "r < text_rows info \<Longrightarrow> 1 + 8 * r + 8 \<le> unat (height info)"
    "in_text info x y \<Longrightarrow> x < unat (stride info) \<and> y < unat (height info)"
  using assms by (auto simp: screen_ok_def text_cols_def text_rows_def in_text_def)

lemma cell_of:
  "1 + 8 * c \<le> x \<and> x < 1 + 8 * c + 8 \<longleftrightarrow> 1 \<le> x \<and> (x - 1) div 8 = (c :: nat)"
  by auto

lemma cell_rest: "1 \<le> x \<and> (x - 1) div 8 = c \<Longrightarrow> x - (1 + 8 * c) = (x - 1) mod (8 :: nat)"
  using minus_mult_div_eq_mod [of "x - 1" 8] by simp

text \<open>The pixels painted when the cells before column \<open>c\<close> of row \<open>r\<close> are drawn.\<close>

definition text_drawn :: "(rchar \<Rightarrow> u8 list option) \<Rightarrow> Logger \<Rightarrow> nat \<Rightarrow> nat \<Rightarrow> nat \<Rightarrow> nat \<Rightarrow> bool option" where
  "text_drawn font l r c x y =
     (if in_text (fb_info l) x y \<and> ((y - 1) div 8 < r \<or> (y - 1) div 8 = r \<and> (x - 1) div 8 < c)
      then Some (text_pixel font (char_buffer l) x y) else None)"

lemma text_drawn_glyph:
  assumes "r < text_rows (fb_info l)" "c < text_cols (fb_info l)" "font (char_buffer l ! r ! c) = Some g"
  shows "glyph g (1 + 8 * c) (1 + 8 * r) (text_drawn font l r c) = text_drawn font l r (Suc c)"
proof (intro ext)
  fix x y
  show "glyph g (1 + 8 * c) (1 + 8 * r) (text_drawn font l r c) x y = text_drawn font l r (Suc c) x y"
  proof (cases "1 \<le> x \<and> (x - 1) div 8 = c \<and> 1 \<le> y \<and> (y - 1) div 8 = r")
    case True
    then have "x - (1 + 8 * c) = (x - 1) mod 8" "y - (1 + 8 * r) = (y - 1) mod 8" using cell_rest by blast+
    moreover have "in_text (fb_info l) x y" using True assms(1, 2) by (auto simp: in_text_def)
    ultimately show ?thesis using True assms(3) cell_of [of c x] cell_of [of r y]
      by (auto simp: glyph_def text_drawn_def text_pixel_def)
  next
    case False
    then show ?thesis using cell_of [of c x] cell_of [of r y] by (auto simp: glyph_def text_drawn_def in_text_def)
  qed
qed

lemma text_drawn_ends:
  "text_drawn font l 0 0 = (\<lambda>_ _. None)" "text_drawn font l r (text_cols (fb_info l)) = text_drawn font l (Suc r) 0"
  "in_text (fb_info l) x y \<Longrightarrow> text_drawn font l (text_rows (fb_info l)) 0 x y = Some (text_pixel font (char_buffer l) x y)"
  by (intro ext | auto simp: text_drawn_def in_text_def)+

definition draw_cell :: "(rchar \<Rightarrow> u8 list option) \<Rightarrow> nat \<Rightarrow> nat \<Rightarrow> Logger \<Rightarrow> Logger outcome" where
  "draw_cell font y x self =
     (if y < length (char_buffer self) \<and> x < length (char_buffer self ! y) then
        bindO (expect_some [] (font (char_buffer self ! y ! x))) (\<lambda>rendered.
        write_8x8 rendered (1 + of_nat x * 8) (1 + of_nat y * 8) self)
      else Panic ''index'')"

lemma draw_cell_paints:
  assumes font: "font_ok font" and l: "console font l" and r: "r < text_rows (fb_info l)" and c: "c < text_cols (fb_info l)"
    and s: "painted l (text_drawn font l r c) s"
  shows "\<exists>s'. draw_cell font r c s = Done s' \<and> painted l (text_drawn font l r (Suc c)) s'"
proof -
  have dl: "drawable l" and ok: "screen_ok (fb_info l)" using l by (auto simp: console_def drawable_def)
  have buf: "char_buffer s = char_buffer l" using s by (auto simp: painted_def)
  have rl: "r < length (char_buffer l)" using r text_bounds(3) [OF ok] l by (simp add: console_def)
  then have row: "char_buffer l ! r \<in> set (char_buffer l)" by simp
  then have cl: "c < length (char_buffer l ! r)" using c l by (simp add: console_def)
  then obtain g where g: "font (char_buffer l ! r ! c) = Some g" using row l by (fastforce simp: console_def)
  have "length g = 8" using g font by (auto simp: font_ok_def)
  moreover have "draw_cell font r c s = write_8x8 g (of_nat (1 + 8 * c)) (of_nat (1 + 8 * r)) s"
    using rl cl g by (simp add: draw_cell_def buf mult.commute)
  ultimately show ?thesis
    using write_8x8_paints [OF dl s, of g "1 + 8 * c" "1 + 8 * r"] text_bounds(4) [OF ok c] text_bounds(5) [OF ok r]
    by (simp only: text_drawn_glyph [of r l c font, OF r c g])
qed

lemma draw_char_buffer_shows:
  assumes font: "font_ok font" and l: "console font l"
  shows "\<exists>bs. draw_char_buffer font l = Done (l\<lparr>fb := bs\<rparr>) \<and> length bs = length (fb l) \<and> shows_text font (char_buffer l) (l\<lparr>fb := bs\<rparr>)"
proof -
  let ?w = "text_cols (fb_info l)" and ?h = "text_rows (fb_info l)"
  have ok: "screen_ok (fb_info l)" using l by (auto simp: console_def drawable_def)
  have run: "draw_char_buffer font l = forO (\<lambda>y s. forO (draw_cell font y) [0..<unat (char_buffer_width s)] s) [0..<?h] l"
    using l by (simp add: draw_char_buffer_def draw_cell_def [abs_def] console_def)
  have "\<exists>s'. draw_char_buffer font l = Done s' \<and> painted l (text_drawn font l ?h 0) s'"
    unfolding run
  proof (rule forO_upt [where P = "\<lambda>r. painted l (text_drawn font l r 0)"])
    fix r s assume r: "r < ?h" and s: "painted l (text_drawn font l r 0) s"
    have "\<exists>s'. forO (draw_cell font r) [0..<?w] s = Done s' \<and> painted l (text_drawn font l r ?w) s'"
      by (rule forO_upt [where P = "\<lambda>c. painted l (text_drawn font l r c)", OF draw_cell_paints [OF font l r] s])
    moreover have "unat (char_buffer_width s) = ?w" using s l by (auto simp: painted_def console_def)
    ultimately show "\<exists>s'. forO (draw_cell font r) [0..<unat (char_buffer_width s)] s = Done s' \<and> painted l (text_drawn font l (Suc r) 0) s'"
      by (simp add: text_drawn_ends(2))
  qed (simp add: text_drawn_ends(1) painted_none)
  then obtain bs where bs: "draw_char_buffer font l = Done (l\<lparr>fb := bs\<rparr>)" "length bs = length (fb l)"
    "\<And>x y. x < unat (stride (fb_info l)) \<Longrightarrow> pixel_at (fb_info l) bs x y =
        (case text_drawn font l ?h 0 x y of None \<Rightarrow> pixel_at (fb_info l) (fb l) x y | Some on \<Rightarrow> color_of (pixel_format (fb_info l)) on)"
    by (auto simp: painted_def)
  then have "shows_text font (char_buffer l) (l\<lparr>fb := bs\<rparr>)"
    using text_bounds(6) [OF ok] by (auto simp: shows_text_def text_drawn_ends(3))
  then show ?thesis using bs(1, 2) by blast
qed

section \<open>Endless paper\<close>

text \<open>
  What the console promises, without a screen: rows of text on endless paper and the column of the next character, which is on
  the last row. The screen shows the last rows.
\<close>

definition blank_row :: "nat \<Rightarrow> rchar list" where "blank_row w = replicate w 0"

definition paper_newline :: "nat \<Rightarrow> rchar list list \<times> nat \<Rightarrow> rchar list list \<times> nat" where
  "paper_newline w p = (fst p @ [blank_row w], 0)"

definition paper_put :: "rchar \<Rightarrow> rchar list list \<times> nat \<Rightarrow> rchar list list \<times> nat" where
  "paper_put c p = (butlast (fst p) @ [(last (fst p))[snd p := c]], snd p + 1)"

definition paper_char :: "nat \<Rightarrow> rchar \<Rightarrow> rchar list list \<times> nat \<Rightarrow> rchar list list \<times> nat" where
  "paper_char w c p =
     (if c = 0x0A then paper_newline w p
      else if c = 0x0D then (fst p, 0)
      else paper_put c (if w \<le> snd p then paper_newline w p else p))"

definition paper :: "nat \<Rightarrow> rchar list \<Rightarrow> rchar list list \<times> nat" where
  "paper w s = fold (paper_char w) s ([blank_row w], 0)"

definition last_rows :: "nat \<Rightarrow> nat \<Rightarrow> rchar list list \<Rightarrow> rchar list list" where
  "last_rows w h rows = drop (length rows - h) rows @ replicate (w - min (length rows) h) (blank_row w)"

definition on_paper :: "(rchar \<Rightarrow> u8 list option) \<Rightarrow> FrameBufferInfo \<Rightarrow> rchar list list \<times> nat \<Rightarrow> Logger \<Rightarrow> bool" where
  "on_paper font info p l \<longleftrightarrow> console font l \<and> fb_info l = info \<and> fst p \<noteq> [] \<and> snd p \<le> text_cols info \<and>
     (\<forall>row \<in> set (fst p). length row = text_cols info) \<and>
     unat (x_pos l) = snd p \<and> unat (y_pos l) = min (length (fst p)) (text_rows info) - 1 \<and>
     char_buffer l = last_rows (text_cols info) (text_rows info) (fst p) \<and> shows_text font (char_buffer l) l"

lemma last_rows_newline:
  assumes "rows \<noteq> []" "0 < h" "h \<le> w"
  shows "last_rows w h (rows @ [blank_row w]) =
    (if length rows < h then last_rows w h rows else drop 1 (last_rows w h rows) @ [blank_row w])"
proof (cases "length rows < h")
  case True
  then have "w - length rows = Suc (w - Suc (length rows))" using assms by simp
  then show ?thesis using True by (simp add: last_rows_def)
next
  case False
  then have "length rows - h < length rows" using assms by simp
  then show ?thesis using False assms
    by (simp add: last_rows_def Suc_diff_le replicate_append_same drop_Suc [symmetric] flip: drop_tl)
qed

lemma unat_text_size:
  assumes "screen_ok info"
  shows "unat ((width info - 1) div 8) = text_cols info" "unat ((height info - 1) div 8) = text_rows info"
proof -
  have "1 \<le> width info" "1 \<le> height info" using assms by (auto simp: screen_ok_def word_le_nat_alt)
  then show "unat ((width info - 1) div 8) = text_cols info" "unat ((height info - 1) div 8) = text_rows info"
    by (simp_all add: text_cols_def text_rows_def unat_div unat_sub)
qed

lemma last_rows_last:
  assumes "rows \<noteq> []" "0 < h" "h \<le> w"
  shows "min (length rows) h - 1 < length (last_rows w h rows)" "last_rows w h rows ! (min (length rows) h - 1) = last rows"
    "last_rows w h (butlast rows @ [row]) = (last_rows w h rows)[min (length rows) h - 1 := row]"
    "length (last_rows w h rows) = w"
proof -
  obtain xs x where rows: "rows = xs @ [x]" using assms(1) by (metis append_butlast_last_id)
  define d where "d = length rows - h"
  have d: "min (length rows) h - 1 = length (drop d xs)" "d \<le> length xs" using assms rows by (auto simp: d_def)
  have lr: "last_rows w h (xs @ [y]) = drop d xs @ y # replicate (w - min (length rows) h) (blank_row w)" for y
    using d(2) by (simp add: last_rows_def rows d_def)
  show "min (length rows) h - 1 < length (last_rows w h rows)" "last_rows w h rows ! (min (length rows) h - 1) = last rows"
    "last_rows w h (butlast rows @ [row]) = (last_rows w h rows)[min (length rows) h - 1 := row]"
    unfolding d(1) unfolding rows by (simp_all add: lr list_update_append flip: length_drop)
  show "length (last_rows w h rows) = w" using assms by (simp add: last_rows_def)
qed

lemma shows_text_cong: "fb_info l' = fb_info l \<Longrightarrow> fb l' = fb l \<Longrightarrow> shows_text font text l' = shows_text font text l"
  by (simp add: shows_text_def)

lemma on_paper_newlineI:
  assumes p: "on_paper font info p l" and c: "console font l'" "fb_info l' = info" "unat (x_pos l') = 0"
    "unat (y_pos l') = min (length (fst p) + 1) (text_rows info) - 1"
    "char_buffer l' = last_rows (text_cols info) (text_rows info) (fst p @ [blank_row (text_cols info)])" "shows_text font (char_buffer l') l'"
  shows "on_paper font info (paper_newline (text_cols info) p) l'"
proof -
  have "\<forall>row \<in> set (fst p). length row = text_cols info" using p unfolding on_paper_def by blast
  moreover have "length (blank_row (text_cols info)) = text_cols info" by (simp add: blank_row_def)
  ultimately have "\<forall>row \<in> set (fst p @ [blank_row (text_cols info)]). length row = text_cols info" by simp
  then show ?thesis using c unfolding on_paper_def paper_newline_def fst_conv snd_conv by (intro conjI) simp_all
qed

lemma newline_on_paper:
  assumes font: "font_ok font" and p: "on_paper font info p l"
  shows "\<exists>l'. newline font l = Done l' \<and> on_paper font info (paper_newline (text_cols info) p) l'"
proof -
  let ?w = "text_cols info" and ?h = "text_rows info" and ?n = "length (fst p)"
  have ok: "screen_ok info" and size: "unat (char_buffer_width l) = ?w" "unat (char_buffer_height l) = ?h"
    using p by (auto simp: on_paper_def console_def drawable_def)
  note b = text_bounds(1-3) [OF ok]
  have con: "console font l" "fb_info l = info" "shows_text font (char_buffer l) l" and ne: "fst p \<noteq> []"
    using p unfolding on_paper_def by blast+
  from ne have n: "0 < ?n" by simp
  have h: "unat (char_buffer_height l) < 2 ^ 64" using unsigned_less [of "char_buffer_height l"] by simp
  have y: "unat (y_pos l + 1) = min ?n ?h"
    using p n b size h unat_add_lem [of "y_pos l" 1] by (simp add: on_paper_def min_less_iff_disj)
  note nl = last_rows_newline [OF ne b(2, 3)]
  define l1 where "l1 = l\<lparr>y_pos := y_pos l + 1, x_pos := 0\<rparr>"
  show ?thesis
  proof (cases "?n < ?h")
    case True
    then have "newline font l = Done l1"
      using y size by (simp add: newline_def carriage_return_def l1_def word_le_nat_alt)
    moreover have "shows_text font (char_buffer l) l1 = shows_text font (char_buffer l) l"
      by (rule shows_text_cong) (simp_all add: l1_def)
    moreover have "console font l1" using con by (simp add: console_def drawable_def l1_def)
    moreover have "char_buffer l1 = last_rows ?w ?h (fst p @ [blank_row ?w])" using p True nl by (simp add: on_paper_def l1_def)
    moreover have "shows_text font (char_buffer l1) l1" using con(3) calculation(2) by (simp add: l1_def)
    moreover have "fb_info l1 = info" "unat (x_pos l1) = 0" "unat (y_pos l1) = ?n" using p True y by (simp_all add: on_paper_def l1_def)
    ultimately have "on_paper font info (paper_newline ?w p) l1" using on_paper_newlineI [OF p] True by simp
    then show ?thesis using \<open>newline font l = Done l1\<close> by blast
  next
    case False
    define l2 where "l2 = l1\<lparr>char_buffer := last_rows ?w ?h (fst p @ [blank_row ?w]), y_pos := char_buffer_height l - 1, x_pos := 0\<rparr>"
    have "newline font l = draw_char_buffer font l2"
      using False y size nl p by (simp add: newline_def carriage_return_def l1_def l2_def word_le_nat_alt on_paper_def blank_row_def)
    moreover have c2: "console font l2"
    proof -
      let ?good = "\<lambda>row. length row = ?w \<and> (\<forall>c \<in> set row. font c \<noteq> None)"
      have "last_rows ?w ?h (fst p @ [blank_row ?w]) = drop 1 (char_buffer l) @ [blank_row ?w]" using False nl p by (simp add: on_paper_def)
      moreover have "\<forall>row \<in> set (drop 1 (char_buffer l)). ?good row"
        using con(1, 2) set_drop_subset [of 1 "char_buffer l"] unfolding console_def by blast
      moreover have "?good (blank_row ?w)" using font by (simp add: font_ok_def blank_row_def)
      ultimately have "\<forall>row \<in> set (last_rows ?w ?h (fst p @ [blank_row ?w])). ?good row" by simp
      moreover have "length (last_rows ?w ?h (fst p @ [blank_row ?w])) = ?w" by (rule last_rows_last(4)) (use b in simp_all)
      ultimately show ?thesis using con(1, 2) by (simp add: console_def drawable_def l1_def l2_def)
    qed
    moreover obtain bs where bs: "draw_char_buffer font l2 = Done (l2\<lparr>fb := bs\<rparr>)" "length bs = length (fb l2)"
      "shows_text font (char_buffer l2) (l2\<lparr>fb := bs\<rparr>)" using draw_char_buffer_shows [OF font c2] by blast
    moreover have "console font (l2\<lparr>fb := bs\<rparr>)" using c2 bs(2) by (simp add: console_def drawable_def)
    moreover have "unat (char_buffer_height l - 1) = ?h - 1" using size(2) b(2) unat_minus_one [of "char_buffer_height l"] by (metis less_irrefl unat_0)
    moreover have "fb_info (l2\<lparr>fb := bs\<rparr>) = info" using p by (simp add: on_paper_def l1_def l2_def)
    ultimately have "on_paper font info (paper_newline ?w p) (l2\<lparr>fb := bs\<rparr>)"
      using on_paper_newlineI [OF p, of "l2\<lparr>fb := bs\<rparr>"] False by (simp add: l2_def)
    then show ?thesis using \<open>newline font l = draw_char_buffer font l2\<close> bs(1) by auto
  qed
qed

lemma text_pixel_put:
  assumes "length text = w" "\<forall>row \<in> set text. length row = w" "r < w" "c < w" "font ch = Some g" "in_text info x y" "text_cols info = w" "text_rows info \<le> w"
  shows "text_pixel font (text[r := (text ! r)[c := ch]]) x y =
    (case glyph g (1 + 8 * c) (1 + 8 * r) (\<lambda>_ _. None) x y of None \<Rightarrow> text_pixel font text x y | Some on \<Rightarrow> on)"
proof -
  have xy: "1 \<le> x" "1 \<le> y" "(x - 1) div 8 < w" "(y - 1) div 8 < w" using assms by (auto simp: in_text_def)
  show ?thesis
  proof (cases "(x - 1) div 8 = c \<and> (y - 1) div 8 = r")
    case True
    then show ?thesis using assms xy cell_of [of c x] cell_of [of r y] cell_rest [of x c] cell_rest [of y r]
      by (auto simp: glyph_def text_pixel_def)
  next
    case False
    then have "text[r := (text ! r)[c := ch]] ! ((y - 1) div 8) ! ((x - 1) div 8) = text ! ((y - 1) div 8) ! ((x - 1) div 8)"
      using assms xy by (cases "(y - 1) div 8 = r") auto
    then show ?thesis using False xy cell_of [of c x] cell_of [of r y] by (auto simp: glyph_def text_pixel_def)
  qed
qed

lemma put_shows:
  assumes ok: "screen_ok info" and l: "console font l" "fb_info l = info" "shows_text font (char_buffer l) l"
    and cell: "r < text_rows info" "c < text_cols info" and g: "font ch = Some g"
    and s: "painted (l\<lparr>char_buffer := buf\<rparr>) (glyph g (1 + 8 * c) (1 + 8 * r) (\<lambda>_ _. None)) s"
    and buf: "buf = (char_buffer l)[r := (char_buffer l ! r)[c := ch]]"
  shows "shows_text font buf s"
  unfolding shows_text_def
proof (intro allI impI)
  fix x y assume t: "in_text (fb_info s) x y"
  obtain bs where bs: "s = l\<lparr>char_buffer := buf, fb := bs\<rparr>" using s by (auto simp: painted_def)
  have i: "in_text info x y" using t l(2) by (simp add: bs)
  have "text_pixel font buf x y = (case glyph g (1 + 8 * c) (1 + 8 * r) (\<lambda>_ _. None) x y of None \<Rightarrow> text_pixel font (char_buffer l) x y | Some on \<Rightarrow> on)"
    unfolding buf by (rule text_pixel_put [where w = "text_cols info"]) (use l i cell g text_bounds(3) [OF ok] in \<open>auto simp: console_def\<close>)
  then show "pixel_at (fb_info s) (fb s) x y = color_of (pixel_format (fb_info s)) (text_pixel font buf x y)"
    using s l(3) i text_bounds(6) [OF ok i] l(2) by (auto simp: painted_def shows_text_def split: option.splits)
qed

lemma console_put:
  assumes "console font l" "r < length (char_buffer l)" "font ch \<noteq> None"
  shows "console font (l\<lparr>char_buffer := (char_buffer l)[r := (char_buffer l ! r)[c := ch]]\<rparr>)"
proof -
  have "char_buffer l ! r \<in> set (char_buffer l)" using assms(2) by simp
  then show ?thesis using assms unfolding console_def
    by (fastforce simp: drawable_def dest!: set_update_subset_insert [THEN subsetD])
qed

lemma put_on_paper:
  assumes font: "font_ok font" and p: "on_paper font info p l" and c: "font c = Some g" "c \<noteq> 0" "c \<noteq> 0x0A" "c \<noteq> 0x0D"
    and room: "snd p < text_cols info"
  shows "\<exists>l'. write_char font c l = Done l' \<and> on_paper font info (paper_put c p) l'"
proof -
  let ?w = "text_cols info" and ?h = "text_rows info" and ?x = "snd p" and ?y = "min (length (fst p)) (text_rows info) - 1"
  have con: "console font l" and info: "fb_info l = info" and ne: "fst p \<noteq> []" and pos: "unat (x_pos l) = ?x" "unat (y_pos l) = ?y"
    and buf: "char_buffer l = last_rows ?w ?h (fst p)" and sh: "shows_text font (char_buffer l) l" using p by (auto simp: on_paper_def)
  have ok: "screen_ok info" using con info by (auto simp: console_def drawable_def)
  note b = text_bounds(1-3) [OF ok] and lr = last_rows_last [OF ne b(2, 3), folded buf]
  have len: "length (last (fst p)) = ?w" using p ne by (simp add: on_paper_def)
  define l1 where "l1 = l\<lparr>char_buffer := (char_buffer l)[?y := (char_buffer l ! ?y)[?x := c]]\<rparr>"
  have c1: "console font l1" unfolding l1_def by (rule console_put) (use con lr(1) c(1) in auto)
  have yh: "?y < ?h" using b by simp
  have "x_pos l = of_nat ?x" "y_pos l = of_nat ?y" unfolding pos [symmetric] by simp_all
  then have xy: "1 + x_pos l * 8 = of_nat (1 + 8 * ?x)" "1 + y_pos l * 8 = of_nat (1 + 8 * ?y)" by (simp_all add: mult.commute)
  obtain s where s: "write_8x8 g (1 + x_pos l * 8) (1 + y_pos l * 8) l1 = Done s" "painted l1 (glyph g (1 + 8 * ?x) (1 + 8 * ?y) (\<lambda>_ _. None)) s"
    unfolding xy using write_8x8_paints [OF _ painted_none, of l1 g "1 + 8 * ?x" "1 + 8 * ?y"] c1 c(1) font text_bounds(4) [OF ok room] text_bounds(5) [OF ok yh]
    by (auto simp: font_ok_def l1_def info console_def)
  obtain bs where bs: "s = l1\<lparr>fb := bs\<rparr>" "length bs = length (fb l1)" using s(2) by (auto simp: painted_def)
  have "write_char font c l = Done (s\<lparr>x_pos := x_pos l + 1\<rparr>)"
    using c room con info pos lr(1, 2) len s(1)
    by (simp add: write_char_def console_def Let_def word_le_nat_alt not_le l1_def bs)
  moreover have "shows_text font (char_buffer l1) s"
    using put_shows [OF ok con info sh yh room c(1) s(2) [unfolded l1_def] refl] by (simp add: l1_def)
  moreover have "char_buffer l1 = last_rows ?w ?h (fst (paper_put c p))" using lr(2, 3) by (simp add: paper_put_def l1_def)
  moreover have "unat (x_pos l + 1) = ?x + 1"
    using pos(1) room unat_add_lem [of "x_pos l" 1] con info unsigned_less [of "char_buffer_width l", where ?'a = nat] by (simp add: console_def)
  moreover have "\<forall>row \<in> set (fst (paper_put c p)). length row = ?w" "length (fst (paper_put c p)) = length (fst p)"
    using p len ne by (auto simp: paper_put_def on_paper_def dest: in_set_butlastD)
  moreover have "console font (s\<lparr>x_pos := x_pos l + 1\<rparr>)" using c1 bs by (simp add: console_def drawable_def)
  moreover have "shows_text font (char_buffer l1) (s\<lparr>x_pos := x_pos l + 1\<rparr>) = shows_text font (char_buffer l1) s"
    by (rule shows_text_cong) simp_all
  moreover have "fb_info s = info" "char_buffer s = char_buffer l1" "y_pos s = y_pos l" using info by (simp_all add: bs(1) l1_def)
  moreover have "fst (paper_put c p) \<noteq> []" "snd (paper_put c p) = ?x + 1" by (simp_all add: paper_put_def)
  ultimately show ?thesis using pos(2) room by (simp add: on_paper_def)
qed

lemma write_char_on_paper:
  assumes font: "font_ok font" and p: "on_paper font info p l" and c: "c = 0x0A \<or> c = 0x0D \<or> c \<noteq> 0 \<and> font c \<noteq> None"
  shows "\<exists>l'. write_char font c l = Done l' \<and> on_paper font info (paper_char (text_cols info) c p) l'"
proof -
  let ?w = "text_cols info"
  have width: "unat (char_buffer_width l) = ?w" "unat (x_pos l) = snd p" "fb_info l = info" and ok: "screen_ok info"
    using p by (auto simp: on_paper_def console_def drawable_def)
  have cr: "on_paper font info (fst p, 0) (carriage_return l)"
    using p shows_text_cong [of "carriage_return l" l font "char_buffer l"] by (auto simp: on_paper_def carriage_return_def console_def drawable_def)
  show ?thesis
  proof (cases "c = 0x0A \<or> c = 0x0D")
    case True
    then show ?thesis using newline_on_paper [OF font p] cr by (auto simp: write_char_def paper_char_def)
  next
    case False
    then obtain g where g: "font c = Some g" "c \<noteq> 0" "c \<noteq> 0x0A" "c \<noteq> 0x0D" using c by auto
    show ?thesis
    proof (cases "?w \<le> snd p")
      case True
      obtain l1 where l1: "newline font l = Done l1" "on_paper font info (paper_newline ?w p) l1" using newline_on_paper [OF font p] by blast
      have w0: "0 < ?w" using text_bounds(1) [OF ok] .
      moreover have "unat (x_pos l1) = 0" "unat (char_buffer_width l1) = ?w" using l1(2) by (auto simp: on_paper_def paper_newline_def console_def)
      then have "\<not> char_buffer_width l1 \<le> x_pos l1" using w0 by (simp add: word_le_nat_alt)
      ultimately have "write_char font c l = write_char font c l1"
        using g True width l1(1) by (simp add: write_char_def word_le_nat_alt)
      then show ?thesis using put_on_paper [OF font l1(2) g] w0 g True by (auto simp: paper_char_def paper_newline_def)
    next
      case False
      then show ?thesis using put_on_paper [OF font p g] g by (auto simp: paper_char_def)
    qed
  qed
qed

definition printable :: "(rchar \<Rightarrow> u8 list option) \<Rightarrow> rchar list \<Rightarrow> bool" where
  "printable font s \<longleftrightarrow> (\<forall>c \<in> set s. c = 0x0A \<or> c = 0x0D \<or> c \<noteq> 0 \<and> font c \<noteq> None)"

lemma write_str_on_paper:
  assumes font: "font_ok font" and "on_paper font info p l" "printable font s"
  shows "\<exists>l'. Logger_write_str font s l = Done l' \<and> on_paper font info (fold (paper_char (text_cols info)) s p) l'"
  using assms(2, 3) unfolding Logger_write_str_def
proof (induction s arbitrary: p l)
  case (Cons c s)
  obtain l1 where "write_char font c l = Done l1" "on_paper font info (paper_char (text_cols info) c p) l1"
    using write_char_on_paper [OF font Cons.prems(1), of c] Cons.prems(2) by (auto simp: printable_def)
  then show ?case using Cons.IH [of _ l1] Cons.prems(2) by (simp add: printable_def)
qed simp

lemma pixel_at_zero:
  assumes "screen_ok info" "x < unat (stride info)" "y < unat (height info)"
  shows "pixel_at info (replicate (unat (fb_size info)) 0) x y = [0, 0, 0, 0]"
proof -
  have "4 \<le> unat (fb_size info) - 4 * (y * unat (stride info) + x)" using pixel_offset(3) [OF assms] by linarith
  then show ?thesis by (simp add: pixel_at_def min_def numeral_eq_Suc)
qed

lemma Logger_new_on_paper:
  assumes font: "font_ok font" and ok: "screen_ok info"
  shows "on_paper font info ([blank_row (text_cols info)], 0) (Logger_new info)"
proof -
  let ?w = "text_cols info" and ?l = "Logger_new info"
  note b = text_bounds(1-3) [OF ok] and u = unat_text_size [OF ok]
  have buf: "char_buffer ?l = replicate ?w (blank_row ?w)" using u by (simp add: Logger_new_def Let_def blank_row_def)
  also have "\<dots> = last_rows ?w (text_rows info) [blank_row ?w]" using b by (cases ?w) (auto simp: last_rows_def)
  finally have lr: "char_buffer ?l = last_rows ?w (text_rows info) [blank_row ?w]" .
  have "shows_text font (char_buffer ?l) ?l"
    unfolding shows_text_def
  proof (intro allI impI)
    fix x y assume t: "in_text (fb_info ?l) x y"
    have info: "fb_info ?l = info" "fb ?l = replicate (unat (fb_size info)) 0" by (simp_all add: Logger_new_def Let_def)
    have "(y - 1) div 8 < ?w" "(x - 1) div 8 < ?w" using t b(3) info by (auto simp: in_text_def)
    then have "\<not> text_pixel font (char_buffer ?l) x y"
      using font by (simp add: buf text_pixel_def blank_row_def font_ok_def)
    then show "pixel_at (fb_info ?l) (fb ?l) x y = color_of (pixel_format (fb_info ?l)) (text_pixel font (char_buffer ?l) x y)"
      using pixel_at_zero [OF ok] text_bounds(6) [OF ok, of x y] t info by (simp add: color_of_def)
  qed
  moreover have "console font ?l"
    using ok u font by (auto simp: console_def drawable_def Logger_new_def Let_def font_ok_def)
  ultimately show ?thesis
    using b lr unfolding on_paper_def by (simp add: Logger_new_def Let_def blank_row_def)
qed

section \<open>Properties\<close>

text \<open>
  C15. The console works like a typewriter on endless paper, of which the screen shows the end: writing any text that
  the font covers succeeds, and then every pixel of the text area is the pixel of the character that is at its place in the
  last rows of the text, wrapped at the width of the screen.
\<close>

theorem logger_shows_text:
  assumes "font_ok font" "screen_ok info" "printable font s"
  shows "\<exists>l. Logger_write_str font s (Logger_new info) = Done l \<and>
    (\<forall>x y. in_text info x y \<longrightarrow> pixel_at info (fb l) x y =
       color_of (pixel_format info) (text_pixel font (last_rows (text_cols info) (text_rows info) (fst (paper (text_cols info) s))) x y))"
proof -
  obtain l where "Logger_write_str font s (Logger_new info) = Done l" "on_paper font info (paper (text_cols info) s) l"
    using write_str_on_paper [OF assms(1) Logger_new_on_paper [OF assms(1, 2)] assms(3)] unfolding paper_def by blast
  then show ?thesis by (auto simp: on_paper_def shows_text_def)
qed

text \<open>On a screen with more text rows than columns the character buffer has too few rows: below them, writing panics.\<close>

lemma newline_above:
  assumes "unat (y_pos l) + 1 < unat (char_buffer_height l)"
  shows "newline font l = Done (l\<lparr>y_pos := y_pos l + 1, x_pos := 0\<rparr>) \<and> unat (y_pos l + 1) = unat (y_pos l) + 1"
proof -
  have "unat (y_pos l + 1) = unat (y_pos l) + 1"
    using less_trans [OF assms unat_less_2p64] unat_add_lem [of "y_pos l" 1] by simp
  then show ?thesis using assms by (simp add: newline_def carriage_return_def word_le_nat_alt)
qed

lemma newlines_above:
  assumes "n < unat (char_buffer_height (Logger_new info))"
  shows "\<exists>y. Logger_write_str font (replicate n 0x0A) (Logger_new info) = Done (Logger_new info\<lparr>y_pos := y, x_pos := 0\<rparr>) \<and> unat y = n"
  using assms
proof (induction n)
  case 0
  then show ?case by (intro exI [of _ 0]) (simp add: Logger_write_str_def Logger_new_def Let_def)
next
  case (Suc n)
  then obtain y where y: "Logger_write_str font (replicate n 0x0A) (Logger_new info) = Done (Logger_new info\<lparr>y_pos := y, x_pos := 0\<rparr>)" "unat y = n"
    by auto
  have "replicate (Suc n) (0x0A :: rchar) = replicate n 0x0A @ [0x0A]" by (simp add: replicate_append_same)
  then show ?case using y newline_above [of "Logger_new info\<lparr>y_pos := y, x_pos := 0\<rparr>" font] Suc.prems
    by (auto simp: Logger_write_str_def forO_append write_char_def)
qed

lemma logger_portrait_panics:
  assumes "text_cols info < text_rows info" "0 < text_cols info" "c \<noteq> 0x0A" "c \<noteq> 0x0D"
  shows "Logger_write_str font (replicate (text_cols info) 0x0A @ [c]) (Logger_new info) = Panic ''index''"
proof -
  have "1 \<le> width info" "1 \<le> height info"
    using assms by (auto simp: text_cols_def text_rows_def word_le_nat_alt Suc_le_eq intro: Nat.gr0I)
  then have u: "unat ((width info - 1) div 8) = text_cols info" "unat ((height info - 1) div 8) = text_rows info"
    by (simp_all add: text_cols_def text_rows_def unat_div unat_sub)
  then obtain y where y: "Logger_write_str font (replicate (text_cols info) 0x0A) (Logger_new info) = Done (Logger_new info\<lparr>y_pos := y, x_pos := 0\<rparr>)"
    "unat y = text_cols info"
    using newlines_above [of "text_cols info" info font] assms(1) by (auto simp: Logger_new_def Let_def)
  moreover have "\<not> (width info - 1) div 8 \<le> 0" using u(1) assms(2) by auto
  ultimately show ?thesis using assms u
    by (simp add: Logger_write_str_def forO_append write_char_def Logger_new_def Let_def)
qed

section \<open>A sample screen\<close>

definition screen_sample :: FrameBufferInfo where
  "screen_sample = \<lparr>fb_addr = 0x80000000, fb_size = 680, width = 17, height = 9, pixel_format = Rgb, stride = 18\<rparr>"

definition font_sample :: "rchar \<Rightarrow> u8 list option" where
  "font_sample c = (if c = 0 then Some (replicate 8 0) else if c = 0x41 then Some [0x0C, 0x1E, 0x33, 0x33, 0x3F, 0x33, 0x33, 0] else None)"

theorem logger_shows_text_witness:
  "\<exists>l. Logger_write_str font_sample [0x41, 0x0A, 0x41, 0x41, 0x41] (Logger_new screen_sample) = Done l \<and>
     pixel_at screen_sample (fb l) 3 1 = [255, 255, 127, 0] \<and> pixel_at screen_sample (fb l) 11 1 = [0, 0, 0, 0]"
proof -
  have font: "font_ok font_sample" by (simp add: font_ok_def font_sample_def)
  have size: "text_cols screen_sample = 2" "text_rows screen_sample = 1"
    by (simp_all add: text_cols_def text_rows_def screen_sample_def)
  have ok: "screen_ok screen_sample" by (simp add: screen_ok_def size) (simp add: screen_sample_def)
  have "printable font_sample [0x41, 0x0A, 0x41, 0x41, 0x41]" by (simp add: printable_def font_sample_def)
  from logger_shows_text [OF font ok this] obtain l where
    "Logger_write_str font_sample [0x41, 0x0A, 0x41, 0x41, 0x41] (Logger_new screen_sample) = Done l"
    "\<And>x y. in_text screen_sample x y \<Longrightarrow> pixel_at screen_sample (fb l) x y =
       color_of Rgb (text_pixel font_sample (last_rows 2 1 (fst (paper 2 [0x41, 0x0A, 0x41, 0x41, 0x41]))) x y)"
    unfolding size by (auto simp: screen_sample_def)
  moreover have blank: "blank_row 2 = [0, 0]" by (simp add: blank_row_def numeral_2_eq_2)
  moreover have "last_rows 2 1 (fst (paper 2 [0x41, 0x0A, 0x41, 0x41, 0x41])) = [[0x41, 0], [0, 0]]"
    by (simp add: paper_def paper_char_def paper_newline_def paper_put_def blank last_rows_def)
  ultimately show ?thesis
    by (simp add: in_text_def size color_of_def text_pixel_def font_sample_def)
qed

end
