(* ===== verification/Shell.thy ===== *)
theory Shell
  imports Logger
begin

text \<open>
  The shell (\<^verbatim>\<open>src/shell.rs\<close>): typed characters are echoed on the console and collected into a line; a complete line may be one of two
  commands. The flag \<open>STOP\<close> of the executor is part of the state.
\<close>

section \<open>The code\<close>

definition chars :: "string \<Rightarrow> rchar list" where
  "chars s = map (\<lambda>c. of_nat (of_char c)) s"

record Shell =
  shell_logger :: Logger
  input_buffer :: "rchar list"

definition Shell_new :: "(rchar \<Rightarrow> u8 list option) \<Rightarrow> FrameBufferInfo \<Rightarrow> Shell outcome" where
  "Shell_new font info =
     bindO (Logger_write_str font (chars ''# '') (Logger_new info)) (\<lambda>l. Done \<lparr>shell_logger = l, input_buffer = []\<rparr>)"

definition char_input :: "(rchar \<Rightarrow> u8 list option) \<Rightarrow> rchar \<Rightarrow> Shell \<times> bool \<Rightarrow> (Shell \<times> bool) outcome" where
  "char_input font c = (\<lambda>(self, STOP).
     bindO (write_char font c (shell_logger self)) (\<lambda>l.
     if c \<noteq> 0x0A then Done (\<lparr>shell_logger = l, input_buffer = input_buffer self @ [c]\<rparr>, STOP)
     else if input_buffer self = chars ''shutdown'' then
       bindO (Logger_write_str font ([0x0A] @ chars ''shutting down...'' @ [0x0A]) l) (\<lambda>l.
       Done (self\<lparr>shell_logger := l\<rparr>, True))
     else
       bindO (if input_buffer self = chars ''help'' then
                bindO (Logger_write_str font (chars ''This is Rust OS! Commands list:'' @ [0x0A]) l) (\<lambda>l.
                bindO (Logger_write_str font (chars ''- help'' @ [0x0A]) l) (\<lambda>l.
                Logger_write_str font (chars ''- shutdown'' @ [0x0A]) l))
              else Done l) (\<lambda>l.
       bindO (Logger_write_str font (chars ''# '') l) (\<lambda>l.
       Done (\<lparr>shell_logger = l, input_buffer = []\<rparr>, STOP)))))"

section \<open>Sessions\<close>

definition covers_ascii :: "(rchar \<Rightarrow> u8 list option) \<Rightarrow> bool" where
  "covers_ascii font \<longleftrightarrow> (\<forall>c. 0x20 \<le> c \<and> c \<le> 0x7E \<longrightarrow> font c \<noteq> None)"

text \<open>What a shell prints after a line, and the whole dialogue of complete lines.\<close>

definition response :: "rchar list \<Rightarrow> rchar list" where
  "response line =
     (if line = chars ''help''
      then chars ''This is Rust OS! Commands list:'' @ [0x0A] @ chars ''- help'' @ [0x0A] @ chars ''- shutdown'' @ [0x0A]
      else []) @ chars ''# ''"

definition typed :: "rchar list list \<Rightarrow> rchar list" where
  "typed ls = concat (map (\<lambda>l. l @ [0x0A]) ls)"

definition dialogue :: "rchar list list \<Rightarrow> rchar list" where
  "dialogue ls = chars ''# '' @ concat (map (\<lambda>l. l @ [0x0A] @ response l) ls)"

definition shell_run :: "(rchar \<Rightarrow> u8 list option) \<Rightarrow> FrameBufferInfo \<Rightarrow> rchar list \<Rightarrow> (Shell \<times> bool) outcome" where
  "shell_run font info keys = bindO (Shell_new font info) (\<lambda>sh. forO (char_input font) keys (sh, False))"

text \<open>The shell has printed \<open>out\<close> on its console.\<close>

definition printed :: "(rchar \<Rightarrow> u8 list option) \<Rightarrow> FrameBufferInfo \<Rightarrow> rchar list \<Rightarrow> Logger \<Rightarrow> bool" where
  "printed font info out l \<longleftrightarrow> on_paper font info (paper (text_cols info) out) l"

lemma paper_append: "paper w (s @ t) = fold (paper_char w) t (paper w s)"
  by (simp add: paper_def)

lemma printed_str:
  assumes "font_ok font" "printed font info out l" "printable font s"
  shows "\<exists>l'. Logger_write_str font s l = Done l' \<and> printed font info (out @ s) l'"
  using write_str_on_paper [OF assms(1) assms(2) [unfolded printed_def] assms(3)] by (simp add: printed_def paper_append)

lemma printed_char:
  assumes "font_ok font" "printed font info out l" "printable font [c]"
  shows "\<exists>l'. write_char font c l = Done l' \<and> printed font info (out @ [c]) l'"
  using write_char_on_paper [OF assms(1) assms(2) [unfolded printed_def], of c] assms(3)
  by (simp add: printed_def paper_append printable_def)

lemma printable_append [simp]: "printable font (s @ t) \<longleftrightarrow> printable font s \<and> printable font t"
  by (auto simp: printable_def)

lemma printable_newline [simp]: "printable font [0x0A]"
  by (simp add: printable_def)

lemma printable_chars:
  assumes "covers_ascii font" "\<forall>c \<in> set s. 32 \<le> (of_char c :: nat) \<and> of_char c \<le> (126 :: nat)"
  shows "printable font (chars s)"
proof -
  have "32 \<le> (of_nat (of_char c) :: rchar) \<and> (of_nat (of_char c) :: rchar) \<le> 126" if "c \<in> set s" for c
  proof -
    have "unat (of_nat (of_char c) :: rchar) = of_char c"
      by (rule of_nat_inverse) (use assms(2) that in auto)
    then show ?thesis using assms(2) that by (simp add: word_le_nat_alt)
  qed
  moreover have "x \<noteq> 0" if "32 \<le> x" for x :: rchar using that by auto
  ultimately show ?thesis using assms(1) by (fastforce simp: printable_def chars_def covers_ascii_def)
qed

lemma chars_ok:
  assumes "covers_ascii font"
  shows "printable font (chars ''# '')" "printable font (chars ''shutting down...'')" "printable font (chars ''This is Rust OS! Commands list:'')"
    "printable font (chars ''- help'')" "printable font (chars ''- shutdown'')" "printable font (chars ''shutdown'')"
  by (rule printable_chars [OF assms]; simp)+

lemma type_line:
  assumes font: "font_ok font" and "printed font info out (shell_logger sh)" "printable font s" "0x0A \<notin> set s"
  shows "\<exists>sh'. forO (char_input font) s (sh, stop) = Done (sh', stop) \<and> input_buffer sh' = input_buffer sh @ s \<and>
    printed font info (out @ s) (shell_logger sh')"
  using assms(2-4)
proof (induction s arbitrary: sh out)
  case (Cons c s)
  have pc: "printable font [c]" "printable font s" using Cons.prems(2) by (auto simp: printable_def)
  obtain l where l: "write_char font c (shell_logger sh) = Done l" "printed font info (out @ [c]) l"
    using printed_char [OF font Cons.prems(1) pc(1)] by blast
  let ?sh = "\<lparr>shell_logger = l, input_buffer = input_buffer sh @ [c]\<rparr>"
  have "char_input font c (sh, stop) = Done (?sh, stop)" using l(1) Cons.prems(3) by (simp add: char_input_def)
  then show ?case using Cons.IH [of "out @ [c]" ?sh] l(2) pc(2) Cons.prems(3) by auto
qed auto

lemma enter_line:
  assumes font: "font_ok font" "covers_ascii font" and p: "printed font info out (shell_logger sh)" and line: "input_buffer sh \<noteq> chars ''shutdown''"
  shows "\<exists>sh'. char_input font 0x0A (sh, stop) = Done (sh', stop) \<and> input_buffer sh' = [] \<and>
    printed font info (out @ [0x0A] @ response (input_buffer sh)) (shell_logger sh')"
proof -
  note ok = chars_ok [OF font(2)] and ps = printed_str [OF font(1)]
  have nl: "printable font (chars ''This is Rust OS! Commands list:'' @ [0x0A])" "printable font (chars ''- help'' @ [0x0A])"
    "printable font (chars ''- shutdown'' @ [0x0A])" using ok by simp_all
  obtain l where l: "write_char font 0x0A (shell_logger sh) = Done l" "printed font info (out @ [0x0A]) l"
    using printed_char [OF font(1) p printable_newline] by blast
  obtain l1 where l1: "Logger_write_str font (chars ''This is Rust OS! Commands list:'' @ [0x0A]) l = Done l1"
    "printed font info ((out @ [0x0A]) @ (chars ''This is Rust OS! Commands list:'' @ [0x0A])) l1" using ps [OF l(2) nl(1)] by blast
  obtain l2 where l2: "Logger_write_str font (chars ''- help'' @ [0x0A]) l1 = Done l2"
    "printed font info (((out @ [0x0A]) @ (chars ''This is Rust OS! Commands list:'' @ [0x0A])) @ chars ''- help'' @ [0x0A]) l2" using ps [OF l1(2) nl(2)] by blast
  obtain l3 where l3: "Logger_write_str font (chars ''- shutdown'' @ [0x0A]) l2 = Done l3"
    "printed font info ((((out @ [0x0A]) @ (chars ''This is Rust OS! Commands list:'' @ [0x0A])) @ chars ''- help'' @ [0x0A]) @ chars ''- shutdown'' @ [0x0A]) l3"
    using ps [OF l2(2) nl(3)] by blast
  show ?thesis
  proof (cases "input_buffer sh = chars ''help''")
    case True
    obtain l4 where "Logger_write_str font (chars ''# '') l3 = Done l4"
      "printed font info (((((out @ [0x0A]) @ (chars ''This is Rust OS! Commands list:'' @ [0x0A])) @ chars ''- help'' @ [0x0A]) @ chars ''- shutdown'' @ [0x0A]) @ chars ''# '') l4"
      using ps [OF l3(2) ok(1)] by blast
    then show ?thesis using True line l(1) l1(1) l2(1) l3(1) by (simp add: char_input_def response_def)
  next
    case False
    obtain l4 where "Logger_write_str font (chars ''# '') l = Done l4" "printed font info ((out @ [0x0A]) @ chars ''# '') l4"
      using ps [OF l(2) ok(1)] by blast
    then show ?thesis using False line l(1) by (simp add: char_input_def response_def)
  qed
qed

lemma shutdown_line:
  assumes font: "font_ok font" "covers_ascii font" and p: "printed font info out (shell_logger sh)" and line: "input_buffer sh = chars ''shutdown''"
  shows "\<exists>sh'. char_input font 0x0A (sh, stop) = Done (sh', True) \<and>
    printed font info (out @ [0x0A] @ [0x0A] @ chars ''shutting down...'' @ [0x0A]) (shell_logger sh')"
proof -
  obtain l where l: "write_char font 0x0A (shell_logger sh) = Done l" "printed font info (out @ [0x0A]) l"
    using printed_char [OF font(1) p printable_newline] by blast
  obtain l1 where "Logger_write_str font ([0x0A] @ chars ''shutting down...'' @ [0x0A]) l = Done l1"
    "printed font info ((out @ [0x0A]) @ ([0x0A] @ chars ''shutting down...'' @ [0x0A])) l1"
    using printed_str [OF font(1) l(2), of "[0x0A] @ chars ''shutting down...'' @ [0x0A]"] chars_ok(2) [OF font(2)]
    by (auto simp: printable_def)
  then show ?thesis using line l(1) by (simp add: char_input_def)
qed

definition line_ok :: "(rchar \<Rightarrow> u8 list option) \<Rightarrow> rchar list \<Rightarrow> bool" where
  "line_ok font line \<longleftrightarrow> printable font line \<and> 0x0A \<notin> set line \<and> line \<noteq> chars ''shutdown''"

lemma type_lines:
  assumes font: "font_ok font" "covers_ascii font" and "printed font info out (shell_logger sh)" "input_buffer sh = []" "\<forall>l \<in> set ls. line_ok font l"
  shows "\<exists>sh'. forO (char_input font) (typed ls) (sh, stop) = Done (sh', stop) \<and> input_buffer sh' = [] \<and>
    printed font info (out @ concat (map (\<lambda>l. l @ [0x0A] @ response l) ls)) (shell_logger sh')"
  using assms(3-5)
proof (induction ls arbitrary: sh out)
  case (Cons line ls)
  have line: "printable font line" "0x0A \<notin> set line" "line \<noteq> chars ''shutdown''" using Cons.prems(3) by (auto simp: line_ok_def)
  obtain s1 where s1: "forO (char_input font) line (sh, stop) = Done (s1, stop)" "input_buffer s1 = line" "printed font info (out @ line) (shell_logger s1)"
    using type_line [OF font(1) Cons.prems(1) line(1, 2)] Cons.prems(2) by auto
  obtain s2 where s2: "char_input font 0x0A (s1, stop) = Done (s2, stop)" "input_buffer s2 = []"
    "printed font info ((out @ line) @ [0x0A] @ response line) (shell_logger s2)"
    using enter_line [OF font s1(3)] s1(2) line(3) by blast
  then show ?case using Cons.IH [OF s2(3, 2)] Cons.prems(3) s1(1) by (auto simp: typed_def forO_append)
qed (auto simp: typed_def)

lemma shell_new_printed:
  assumes "font_ok font" "covers_ascii font" "screen_ok info"
  shows "\<exists>sh. Shell_new font info = Done sh \<and> input_buffer sh = [] \<and> printed font info (chars ''# '') (shell_logger sh)"
  using printed_str [OF assms(1), of info "[]" "Logger_new info" "chars ''# ''"] Logger_new_on_paper [OF assms(1, 3)] chars_ok(1) [OF assms(2)]
  by (auto simp: printed_def paper_def Shell_new_def)

section \<open>Properties\<close>

text \<open>
  C13. A session of the shell: after any complete lines other than \<open>shutdown\<close> and a part of a line, the screen shows the
  dialogue (the prompt, each line as typed, the list of commands after \<open>help\<close>), the line buffer holds the part of the line and the
  executor goes on; the line \<open>shutdown\<close>, and only it, stops the executor.
\<close>

theorem shell_session:
  assumes "font_ok font" "covers_ascii font" "screen_ok info" "\<forall>l \<in> set ls. line_ok font l" "printable font part" "0x0A \<notin> set part"
  shows "(\<exists>sh. shell_run font info (typed ls @ part) = Done (sh, False) \<and> input_buffer sh = part \<and>
      shows_text font (last_rows (text_cols info) (text_rows info) (fst (paper (text_cols info) (dialogue ls @ part)))) (shell_logger sh)) \<and>
    (\<exists>sh. shell_run font info (typed ls @ chars ''shutdown'' @ [0x0A]) = Done (sh, True) \<and>
      shows_text font (last_rows (text_cols info) (text_rows info)
        (fst (paper (text_cols info) (dialogue ls @ chars ''shutdown'' @ [0x0A, 0x0A] @ chars ''shutting down...'' @ [0x0A])))) (shell_logger sh))"
proof -
  obtain s0 where s0: "Shell_new font info = Done s0" "input_buffer s0 = []" "printed font info (chars ''# '') (shell_logger s0)"
    using shell_new_printed [OF assms(1-3)] by blast
  obtain s1 where s1: "forO (char_input font) (typed ls) (s0, False) = Done (s1, False)" "input_buffer s1 = []"
    "printed font info (dialogue ls) (shell_logger s1)"
    using type_lines [OF assms(1, 2) s0(3, 2) assms(4)] by (auto simp: dialogue_def)
  obtain s2 where s2: "forO (char_input font) part (s1, False) = Done (s2, False)" "input_buffer s2 = part" "printed font info (dialogue ls @ part) (shell_logger s2)"
    using type_line [OF assms(1) s1(3) assms(5, 6)] s1(2) by auto
  have nl: "0x0A \<notin> set (chars ''shutdown'')" by (simp add: chars_def)
  obtain s3 where s3: "forO (char_input font) (chars ''shutdown'') (s1, False) = Done (s3, False)" "input_buffer s3 = chars ''shutdown''"
    "printed font info (dialogue ls @ chars ''shutdown'') (shell_logger s3)"
    using type_line [OF assms(1) s1(3) chars_ok(6) [OF assms(2)] nl] s1(2) by auto
  obtain s4 where s4: "char_input font 0x0A (s3, False) = Done (s4, True)"
    "printed font info ((dialogue ls @ chars ''shutdown'') @ [0x0A] @ [0x0A] @ chars ''shutting down...'' @ [0x0A]) (shell_logger s4)"
    using shutdown_line [OF assms(1, 2) s3(3, 2)] by blast
  show ?thesis using s0(1) s1(1) s2 s3(1) s4 by (auto simp: shell_run_def forO_append printed_def on_paper_def)
qed

section \<open>A sample session\<close>

definition ascii_sample :: "rchar \<Rightarrow> u8 list option" where
  "ascii_sample c = (if c = 0 then Some (replicate 8 0) else if c \<le> 0x7E then Some (replicate 8 (ucast c)) else None)"

theorem shell_session_witness:
  "(\<exists>sh. shell_run ascii_sample screen_sample (typed [chars ''help''] @ chars ''sh'') = Done (sh, False) \<and> input_buffer sh = chars ''sh'') \<and>
   (\<exists>sh. shell_run ascii_sample screen_sample (typed [chars ''help''] @ chars ''shutdown'' @ [0x0A]) = Done (sh, True))"
proof -
  have font: "font_ok ascii_sample" "covers_ascii ascii_sample"
    by (auto simp: font_ok_def ascii_sample_def covers_ascii_def split: if_splits)
  have ok: "screen_ok screen_sample" by (simp add: screen_ok_def screen_sample_def text_cols_def text_rows_def)
  have "\<forall>l \<in> set [chars ''help'']. line_ok ascii_sample l" "printable ascii_sample (chars ''sh'')" "0x0A \<notin> set (chars ''sh'')"
    by (simp_all add: line_ok_def printable_def chars_def ascii_sample_def)
  from shell_session [OF font ok this] show ?thesis by blast
qed

end
