(* ===== verification/Keyboard.thy ===== *)
theory Keyboard
  imports Wakers Shell
begin

text \<open>
  The keyboard (\<^verbatim>\<open>src/task/keyboard.rs\<close>): the interrupt handler puts scancodes into a bounded queue, a task takes them out, decodes them
  and gives the characters to the shell. The decoder is the crate \<open>pc_keyboard\<close>, a parameter with its two operations.
\<close>

section \<open>The code\<close>

record ('s, 'w) keyboard =
  SCANCODE_QUEUE :: "'s option"
  WAKER :: 'w

definition add_scancode ::
    "(u8, 's) queue_ops \<Rightarrow> 'w waker_ops \<Rightarrow> (TaskId, 'q) queue_ops \<Rightarrow> u8 \<Rightarrow> ('s, 'w) keyboard \<Rightarrow> 'q \<Rightarrow> (('s, 'w) keyboard \<times> 'q) outcome" where
  "add_scancode S W Q scancode k q =
     (case SCANCODE_QUEUE k of
        Some queue \<Rightarrow>
          let (r, queue) = q_push S scancode queue;
              k = k\<lparr>SCANCODE_QUEUE := Some queue\<rparr>
          in (case r of
                Inl _ \<Rightarrow> Done (k, q)
              | Inr _ \<Rightarrow> bindO (aw_wake W Q (WAKER k) q) (\<lambda>(w, q). Done (k\<lparr>WAKER := w\<rparr>, q)))
      | None \<Rightarrow> Done (k, q))"

definition ScancodeStream_new :: "(u8, 's) queue_ops \<Rightarrow> ('s, 'w) keyboard \<Rightarrow> ('s, 'w) keyboard outcome" where
  "ScancodeStream_new S k =
     (case SCANCODE_QUEUE k of
        None \<Rightarrow> Done (k\<lparr>SCANCODE_QUEUE := Some (q_new S 100)\<rparr>)
      | Some _ \<Rightarrow> Panic ''ScancodeStream::new should only be called once'')"

text \<open>\<open>poll_next\<close> by the task \<open>i\<close>: \<open>Some\<close> is \<open>Poll::Ready(Some(scancode))\<close>, \<open>None\<close> is \<open>Pending\<close>.\<close>

definition keyboard_poll_next ::
    "(u8, 's) queue_ops \<Rightarrow> 'w waker_ops \<Rightarrow> TaskId \<Rightarrow> ('s, 'w) keyboard \<Rightarrow> (u8 option \<times> ('s, 'w) keyboard) outcome" where
  "keyboard_poll_next S W i k =
     bindO (expect_some ''not initialized'' (SCANCODE_QUEUE k)) (\<lambda>queue.
     let (scancode, queue) = q_pop S queue;
         k = k\<lparr>SCANCODE_QUEUE := Some queue\<rparr>
     in if scancode \<noteq> None then Done (scancode, k)
        else let k = k\<lparr>WAKER := aw_register W i (WAKER k)\<rparr>;
                 (scancode, queue) = q_pop S queue;
                 k = k\<lparr>SCANCODE_QUEUE := Some queue\<rparr>
             in (case scancode of
                   Some scancode \<Rightarrow> Done (Some scancode, k\<lparr>WAKER := snd (aw_take W (WAKER k))\<rparr>)
                 | None \<Rightarrow> Done (None, k)))"

datatype 'key DecodedKey = Unicode rchar | RawKey 'key

record ('d, 'ev, 'key, 'e) key_decoder =
  add_byte :: "u8 \<Rightarrow> 'd \<Rightarrow> ('e + 'ev option) \<times> 'd"
  process_keyevent :: "'ev \<Rightarrow> 'd \<Rightarrow> 'key DecodedKey option \<times> 'd"
  key_debug :: "'key \<Rightarrow> rchar list"

text \<open>
  The state of the task \<open>print_keypresses\<close>: the decoder, the shell and its flag, and the flags register and the text console
  that the macro \<open>out!\<close> uses.
\<close>

record 'd keypress_task =
  kt_decoder :: 'd
  kt_shell :: Shell
  kt_STOP :: bool
  kt_rflags :: u64
  kt_LOGGER :: "Logger option"

definition out :: "(rchar \<Rightarrow> u8 list option) \<Rightarrow> rchar list \<Rightarrow> 'd keypress_task \<Rightarrow> 'd keypress_task outcome" where
  "out font text s =
     bindO (expect_some [] (kt_LOGGER s)) (\<lambda>l.
     let (r, c) = LockedLogger_write_fmt font text \<lparr>rflags = kt_rflags s, rest = l\<rparr>
     in bindO r (\<lambda>_. Done (s\<lparr>kt_rflags := rflags c, kt_LOGGER := Some (rest c)\<rparr>)))"

definition handle_scancode ::
    "('d, 'ev, 'key, 'e) key_decoder \<Rightarrow> (rchar \<Rightarrow> u8 list option) \<Rightarrow> u8 \<Rightarrow> 'd keypress_task \<Rightarrow> 'd keypress_task outcome" where
  "handle_scancode K font scancode s =
     (let (r, d) = add_byte K scancode (kt_decoder s)
      in case r of
           Inr (Some key_event) \<Rightarrow>
             let (key, d) = process_keyevent K key_event d;
                 s = s\<lparr>kt_decoder := d\<rparr>
             in (case key of
                   Some (Unicode character) \<Rightarrow>
                     bindO (char_input font character (kt_shell s, kt_STOP s)) (\<lambda>(sh, stop). Done (s\<lparr>kt_shell := sh, kt_STOP := stop\<rparr>))
                 | Some (RawKey key) \<Rightarrow> out font (key_debug K key) s
                 | None \<Rightarrow> Done s)
         | _ \<Rightarrow> Done (s\<lparr>kt_decoder := d\<rparr>))"

text \<open>A poll of \<open>print_keypresses\<close>: the loop runs until the stream is pending.\<close>

fun print_keypresses ::
    "nat \<Rightarrow> (u8, 's) queue_ops \<Rightarrow> 'w waker_ops \<Rightarrow> ('d, 'ev, 'key, 'e) key_decoder \<Rightarrow> (rchar \<Rightarrow> u8 list option) \<Rightarrow> TaskId
      \<Rightarrow> ('s, 'w) keyboard \<Rightarrow> 'd keypress_task \<Rightarrow> (('s, 'w) keyboard \<times> 'd keypress_task) outcome" where
  "print_keypresses 0 S W K font i k s = Hang"
| "print_keypresses (Suc fuel) S W K font i k s =
     bindO (keyboard_poll_next S W i k) (\<lambda>(r, k).
     case r of
       None \<Rightarrow> Done (k, s)
     | Some scancode \<Rightarrow> bindO (handle_scancode K font scancode s) (\<lambda>s. print_keypresses fuel S W K font i k s))"

section \<open>Waking the task\<close>

definition keyboard_source :: "(u8, 's) queue_ops \<Rightarrow> 'w waker_ops \<Rightarrow> (TaskId, 'q) queue_ops \<Rightarrow> (('s, 'w) keyboard, 'q) event_source" where
  "keyboard_source S W Q =
     \<lparr>ev_avail = \<lambda>k. case SCANCODE_QUEUE k of None \<Rightarrow> False | Some s \<Rightarrow> \<not> q_is_empty S s,
      ev_consume = \<lambda>k. k\<lparr>SCANCODE_QUEUE := map_option (\<lambda>s. snd (q_pop S s)) (SCANCODE_QUEUE k)\<rparr>,
      ev_register = \<lambda>i k. k\<lparr>WAKER := aw_register W i (WAKER k)\<rparr>,
      ev_clear = \<lambda>k. k\<lparr>WAKER := snd (aw_take W (WAKER k))\<rparr>,
      ev_interrupt = add_scancode S W Q\<rparr>"

lemma keyboard_poll_steps:
  assumes S: "array_queue S scancodes cap" and run: "keyboard_poll_next S W i k = Done (r, k')"
  shows "poll_steps (keyboard_source S W Q) i (First, k, q) (Finished (r \<noteq> None), k', q)"
proof -
  let ?E = "keyboard_source S W Q"
  obtain s where s: "SCANCODE_QUEUE k = Some s" using run by (auto simp: keyboard_poll_next_def outcome_simps)
  show ?thesis
  proof (cases "scancodes s")
    case Nil
    then have pop: "q_pop S s = (None, s)" "q_is_empty S s" using queue_pop_empty [OF S] queue_is_empty [OF S] by auto
    have "poll_step ?E i (First, k, q) (Register, k, q)"
      by (intro first_empty) (simp add: keyboard_source_def s pop)
    note s1 = poll_trans [OF poll_refl this]
    have "poll_step ?E i (Second, ev_register ?E i k, q) (Finished False, ev_register ?E i k, q)"
      by (intro second_empty) (simp add: keyboard_source_def s pop)
    note s3 = poll_trans [OF poll_trans [OF s1 register] this]
    have "k\<lparr>SCANCODE_QUEUE := Some s\<rparr> = k" "k\<lparr>SCANCODE_QUEUE := Some s, WAKER := w\<rparr> = k\<lparr>WAKER := w\<rparr>"
        "k\<lparr>WAKER := w, SCANCODE_QUEUE := Some s\<rparr> = k\<lparr>WAKER := w\<rparr>" for w
      using s by (cases k; simp)+
    then have "r = None" "k' = ev_register ?E i k"
      using run by (auto simp: keyboard_poll_next_def s pop keyboard_source_def)
    then show ?thesis using s3 by simp
  next
    case (Cons x xs)
    then have pop: "fst (q_pop S s) = Some x" "\<not> q_is_empty S s" using queue_pop [OF S Cons] queue_is_empty [OF S] by auto
    have "poll_step ?E i (First, k, q) (Finished True, ev_consume ?E k, q)"
      by (intro first_ready) (simp add: keyboard_source_def s pop)
    moreover have "r = Some x" "k' = ev_consume ?E k"
      using run by (auto simp: keyboard_poll_next_def s pop keyboard_source_def split_def Let_def)
    ultimately show ?thesis using poll_trans [OF poll_refl] by fastforce
  qed
qed

lemma keyboard_event_stream:
  assumes S: "array_queue S scancodes scap" and W: "atomic_waker W wk" and Q: "array_queue Q contents cap"
  shows "event_stream (keyboard_source S W Q) contents (\<lambda>k. wk (WAKER k))"
proof
  fix x k q k' q' assume run: "ev_interrupt (keyboard_source S W Q) x k q = Done (k', q')"
  show "wk (WAKER k') = wk (WAKER k) \<and> contents q' = contents q \<and>
        (ev_avail (keyboard_source S W Q) k' \<longrightarrow> ev_avail (keyboard_source S W Q) k) \<or>
      ev_avail (keyboard_source S W Q) k' \<and> wk (WAKER k') = None \<and>
      contents q' = contents q @ (case wk (WAKER k) of None \<Rightarrow> [] | Some i \<Rightarrow> [i])"
  proof (cases "SCANCODE_QUEUE k")
    case None
    then show ?thesis using run by (simp add: keyboard_source_def add_scancode_def)
  next
    case (Some s)
    show ?thesis
    proof (cases "length (scancodes s) < scap s")
      case False
      then have "k' = k\<lparr>SCANCODE_QUEUE := Some s\<rparr>" "q' = q"
        using run Some queue_full [OF S False] by (auto simp: keyboard_source_def add_scancode_def)
      then show ?thesis using Some by (simp add: keyboard_source_def)
    next
      case True
      let ?s = "snd (q_push S x s)"
      have "bindO (aw_wake W Q (WAKER k) q) (\<lambda>(w, q). Done (k\<lparr>SCANCODE_QUEUE := Some ?s, WAKER := w\<rparr>, q)) = Done (k', q')"
        using run Some queue_push(1) [OF S True, of x] by (simp add: keyboard_source_def add_scancode_def split_def Let_def)
      then obtain w where wake: "aw_wake W Q (WAKER k) q = Done (w, q')" and k': "k' = k\<lparr>SCANCODE_QUEUE := Some ?s, WAKER := w\<rparr>"
        by (cases "aw_wake W Q (WAKER k) q") auto
      have "\<not> q_is_empty S ?s" using queue_is_empty [OF S, of ?s] queue_push(2) [OF S True, of x] by simp
      then show ?thesis using aw_wake_done [OF Q W wake] by (simp add: k' keyboard_source_def)
    qed
  qed
qed (use W in \<open>simp add: keyboard_source_def atomic_waker_def\<close>)

interpretation keyboard_events: event_stream "keyboard_source list_queue option_waker list_queue" snd "\<lambda>k. id (WAKER k)"
  by (rule keyboard_event_stream [OF array_queue_list atomic_waker_option array_queue_list])

section \<open>Draining the queue\<close>

lemma poll_next_some:
  assumes "array_queue S scancodes cap" "SCANCODE_QUEUE k = Some s" "scancodes s = x # xs"
  shows "keyboard_poll_next S W i k = Done (Some x, k\<lparr>SCANCODE_QUEUE := Some (snd (q_pop S s))\<rparr>)"
  using assms(2) queue_pop(1) [OF assms(1, 3)] by (simp add: keyboard_poll_next_def split_def Let_def)

lemma poll_next_none:
  assumes "array_queue S scancodes cap" "SCANCODE_QUEUE k = Some s" "scancodes s = []"
  shows "keyboard_poll_next S W i k = Done (None, k\<lparr>WAKER := aw_register W i (WAKER k)\<rparr>)"
  using assms(2) queue_pop_empty [OF assms(1, 3)] by (cases k) (simp add: keyboard_poll_next_def)

lemma print_keypresses_drains:
  assumes S: "array_queue S scancodes cap" and "SCANCODE_QUEUE k = Some s" "length (scancodes s) < fuel"
    "forO (handle_scancode K font) (scancodes s) t = Done t'"
  shows "\<exists>k' s'. print_keypresses fuel S W K font i k t = Done (k', t') \<and> SCANCODE_QUEUE k' = Some s' \<and> scancodes s' = [] \<and>
    cap s' = cap s \<and> WAKER k' = aw_register W i (WAKER k)"
  using assms(2-4)
proof (induction fuel arbitrary: k s t)
  case (Suc fuel)
  show ?case
  proof (cases "scancodes s")
    case Nil
    then show ?thesis using Suc.prems poll_next_none [OF S Suc.prems(1) Nil] by simp
  next
    case (Cons x xs)
    note pop = queue_pop(2, 3) [OF S Cons]
    obtain t1 where t1: "handle_scancode K font x t = Done t1" "forO (handle_scancode K font) xs t1 = Done t'"
      using Suc.prems(3) Cons by (auto simp: outcome_simps)
    show ?thesis
      using Suc.IH [of "k\<lparr>SCANCODE_QUEUE := Some (snd (q_pop S s))\<rparr>" "snd (q_pop S s)" t1] Suc.prems(2) t1 pop Cons
        poll_next_some [OF S Suc.prems(1) Cons] by simp
  qed
qed simp

text \<open>The characters that a decoder makes of scancodes.\<close>

fun decode :: "('d, 'ev, 'key, 'e) key_decoder \<Rightarrow> u8 list \<Rightarrow> 'd \<Rightarrow> 'key DecodedKey list \<times> 'd" where
  "decode K [] d = ([], d)"
| "decode K (sc # scs) d =
     (let (r, d) = add_byte K sc d;
          (key, d) = (case r of Inr (Some ev) \<Rightarrow> process_keyevent K ev d | _ \<Rightarrow> (None, d));
          (keys, d) = decode K scs d
      in ((case key of None \<Rightarrow> [] | Some key \<Rightarrow> [key]) @ keys, d))"

lemma handle_scancodes_chars:
  assumes "fst (decode K scs (kt_decoder t)) = map Unicode cs" "forO (char_input font) cs (kt_shell t, kt_STOP t) = Done (sh, stop)"
  shows "\<exists>t'. forO (handle_scancode K font) scs t = Done t' \<and> kt_shell t' = sh \<and> kt_STOP t' = stop \<and>
    kt_decoder t' = snd (decode K scs (kt_decoder t)) \<and> kt_LOGGER t' = kt_LOGGER t"
  using assms
proof (induction scs arbitrary: t cs)
  case (Cons sc scs)
  obtain r d where rd: "add_byte K sc (kt_decoder t) = (r, d)" by fastforce
  obtain key d1 where kd: "(case r of Inr (Some ev) \<Rightarrow> process_keyevent K ev d | _ \<Rightarrow> (None, d)) = (key, d1)" by fastforce
  define t1 where "t1 = t\<lparr>kt_decoder := d1\<rparr>"
  have keys: "fst (decode K (sc # scs) (kt_decoder t)) = (case key of None \<Rightarrow> [] | Some key \<Rightarrow> [key]) @ fst (decode K scs d1)"
      "snd (decode K (sc # scs) (kt_decoder t)) = snd (decode K scs d1)"
    by (simp_all add: rd kd split: prod.split)
  show ?case
  proof (cases key)
    case None
    have "handle_scancode K font sc t = Done t1"
      using kd None by (auto simp: handle_scancode_def rd t1_def split: sum.splits option.splits)
    then show ?thesis using Cons.IH [of t1 cs] Cons.prems keys None by (simp add: t1_def)
  next
    case (Some k)
    then obtain c cs' where c: "k = Unicode c" "cs = c # cs'" "fst (decode K scs d1) = map Unicode cs'" using Cons.prems(1) keys(1) by (cases cs) auto
    obtain sh1 stop1 where s1: "char_input font c (kt_shell t, kt_STOP t) = Done (sh1, stop1)" "forO (char_input font) cs' (sh1, stop1) = Done (sh, stop)"
      using Cons.prems(2) c(2) by (auto simp: outcome_simps)
    have "handle_scancode K font sc t = Done (t1\<lparr>kt_shell := sh1, kt_STOP := stop1\<rparr>)"
      using kd Some c(1) s1(1) by (auto simp: handle_scancode_def rd t1_def split: sum.splits option.splits)
    then show ?thesis using Cons.IH [of "t1\<lparr>kt_shell := sh1, kt_STOP := stop1\<rparr>" cs'] c(3) s1(2) keys(2) by (simp add: t1_def)
  qed
qed auto

section \<open>Properties\<close>


text \<open>
  C14. From the queue to the shell: when the waiting scancodes decode to characters, a poll of the keyboard task
  terminates, empties the queue, registers the task for the next interrupt and has given the shell exactly these characters in
  their order.
\<close>

theorem keyboard_feeds_shell:
  assumes S: "array_queue S scancodes cap" and k: "SCANCODE_QUEUE k = Some s" and fuel: "length (scancodes s) < fuel"
    and keys: "fst (decode K (scancodes s) (kt_decoder t)) = map Unicode cs"
    and shell: "forO (char_input font) cs (kt_shell t, kt_STOP t) = Done (sh, stop)"
  shows "\<exists>k' s' t'. print_keypresses fuel S W K font i k t = Done (k', t') \<and> SCANCODE_QUEUE k' = Some s' \<and> scancodes s' = [] \<and>
    WAKER k' = aw_register W i (WAKER k) \<and> kt_shell t' = sh \<and> kt_STOP t' = stop"
proof -
  obtain t' where t': "forO (handle_scancode K font) (scancodes s) t = Done t'" "kt_shell t' = sh" "kt_STOP t' = stop"
    using handle_scancodes_chars [OF keys shell] by blast
  then show ?thesis using print_keypresses_drains [OF S k fuel t'(1), of W i] by auto
qed

text \<open>
  C36. A key that has no character (an arrow or a function key) is printed on the text console of the logger. The kernel
  installs the serial logger and leaves that console uninitialised, and then such a key makes the keyboard task panic.
\<close>

theorem keyboard_raw_key_panics:
  assumes S: "array_queue S scancodes cap" and k: "SCANCODE_QUEUE k = Some s" "scancodes s = sc # scs"
    and key: "add_byte K sc (kt_decoder t) = (Inr (Some ev), d)" "process_keyevent K ev d = (Some (RawKey key), d')"
    and logger: "kt_LOGGER t = None"
  shows "print_keypresses (Suc fuel) S W K font i k t = Panic []"
  using poll_next_some [OF S k] key logger by (simp add: handle_scancode_def out_def)

section \<open>A sample keyboard\<close>

text \<open>A decoder that takes every scancode for the character with that code, and the code 0 for a raw key.\<close>

definition decoder_sample :: "(unit, u8, unit, unit) key_decoder" where
  "decoder_sample = \<lparr>add_byte = \<lambda>sc d. (Inr (Some sc), d), process_keyevent = \<lambda>ev d. (Some (if ev = 0 then RawKey () else Unicode (ucast ev)), d), key_debug = \<lambda>_. []\<rparr>"

definition keyboard_sample :: "u8 list \<Rightarrow> (nat \<times> u8 list, TaskId option) keyboard" where
  "keyboard_sample scs = \<lparr>SCANCODE_QUEUE = Some (100, scs), WAKER = None\<rparr>"

definition keypress_sample :: "Shell \<Rightarrow> unit keypress_task" where
  "keypress_sample sh = \<lparr>kt_decoder = (), kt_shell = sh, kt_STOP = False, kt_rflags = 0x202, kt_LOGGER = None\<rparr>"


theorem keyboard_feeds_shell_witness:
  "\<exists>sh0 k' s' t'. print_keypresses 3 list_queue option_waker decoder_sample ascii_sample 7 (keyboard_sample [0x68, 0x69]) (keypress_sample sh0) = Done (k', t') \<and>
     SCANCODE_QUEUE k' = Some s' \<and> snd s' = [] \<and> WAKER k' = Some 7 \<and> input_buffer (kt_shell t') = [0x68, 0x69] \<and> \<not> kt_STOP t'"
proof -
  have font: "font_ok ascii_sample" "covers_ascii ascii_sample"
    by (auto simp: font_ok_def ascii_sample_def covers_ascii_def split: if_splits)
  have ok: "screen_ok screen_sample" by (simp add: screen_ok_def screen_sample_def text_cols_def text_rows_def)
  obtain sh0 :: Shell where sh0: "input_buffer sh0 = []" "printed ascii_sample screen_sample (chars ''# '') (shell_logger sh0)"
    using shell_new_printed [OF font ok] by blast
  have p: "printable ascii_sample [0x68, 0x69]" "0x0A \<notin> set [0x68, 0x69 :: rchar]" by (simp_all add: printable_def ascii_sample_def)
  obtain sh where sh: "forO (char_input ascii_sample) [0x68, 0x69] (sh0, False) = Done (sh, False)" "input_buffer sh = [0x68, 0x69]"
    using type_line [OF font(1) sh0(2) p] sh0(1) by auto
  have s: "SCANCODE_QUEUE (keyboard_sample [0x68, 0x69]) = Some (100, [0x68, 0x69])" by (simp add: keyboard_sample_def)
  have f: "length (snd (100 :: nat, [0x68, 0x69 :: u8])) < 3" by simp
  have d: "fst (decode decoder_sample (snd (100 :: nat, [0x68, 0x69])) (kt_decoder (keypress_sample sh0))) = map Unicode [0x68, 0x69]"
    by (simp add: decoder_sample_def)
  have r: "forO (char_input ascii_sample) [0x68, 0x69] (kt_shell (keypress_sample sh0), kt_STOP (keypress_sample sh0)) = Done (sh, False)"
    using sh(1) by (simp add: keypress_sample_def)
  show ?thesis using keyboard_feeds_shell [OF array_queue_list s f d r, of option_waker 7] sh(2)
    by (auto simp: option_waker_def keyboard_sample_def)
qed

theorem keyboard_raw_key_panics_witness:
  "\<exists>sh0. print_keypresses 3 list_queue option_waker decoder_sample ascii_sample 7 (keyboard_sample [0]) (keypress_sample sh0) = Panic []"
proof -
  have s: "SCANCODE_QUEUE (keyboard_sample [0]) = Some (100, [0])" "snd (100 :: nat, [0 :: u8]) = 0 # []" by (simp_all add: keyboard_sample_def)
  have k: "add_byte decoder_sample 0 (kt_decoder (keypress_sample sh0)) = (Inr (Some 0), ())"
    "process_keyevent decoder_sample 0 () = (Some (RawKey ()), ())" "kt_LOGGER (keypress_sample sh0) = None" for sh0
    by (simp_all add: decoder_sample_def keypress_sample_def)
  from keyboard_raw_key_panics [OF array_queue_list s k, of 2] show ?thesis by (simp add: numeral_3_eq_3)
qed

end
