(* ===== verification/Interrupts.thy ===== *)
theory Interrupts
  imports Idt Gdt Apic Keyboard
begin

text \<open>
  The kernel's interrupt table and handlers (\<^verbatim>\<open>src/interrupts.rs\<close>). The addresses of the handler functions are a parameter. What the
  exception handlers print is output only; the page-fault handler prints and halts for good.
\<close>

section \<open>The code\<close>

record handler_addresses =
  breakpoint_handler :: u64
  double_fault_handler :: u64
  general_protection_fault_handler :: u64
  timer_interrupt_handler_addr :: u64
  keyboard_interrupt_handler_addr :: u64
  spurious_handler :: u64
  page_fault_handler :: u64

definition IDT :: "u16 \<Rightarrow> handler_addresses \<Rightarrow> InterruptDescriptorTable outcome" where
  "IDT sel hs =
     (let idt = InterruptDescriptorTable_new;
          idt = idt\<lparr>breakpoint := set_handler_fn sel (breakpoint_handler hs) (breakpoint idt)\<rparr>;
          e = set_handler_fn sel (double_fault_handler hs) (double_fault idt);
          idt = idt\<lparr>double_fault := e\<lparr>options := set_stack_index DOUBLE_FAULT_IST_INDEX (options e)\<rparr>\<rparr>;
          idt = idt\<lparr>general_protection_fault := set_handler_fn sel (general_protection_fault_handler hs) (general_protection_fault idt)\<rparr>
      in bindO (idt_index_mut (as_usize TimerIndex) (set_handler_fn sel (timer_interrupt_handler_addr hs)) idt) (\<lambda>idt.
         bindO (idt_index_mut (as_usize KeyboardIndex) (set_handler_fn sel (keyboard_interrupt_handler_addr hs)) idt) (\<lambda>idt.
         bindO (idt_index_mut (as_usize SpuriousIndex) (set_handler_fn sel (spurious_handler hs)) idt) (\<lambda>idt.
         Done (idt\<lparr>page_fault := set_handler_fn sel (page_fault_handler hs) (page_fault idt)\<rparr>)))))"

text \<open>\<open>init_idt\<close> loads the table at its address: the new interrupt table register.\<close>

definition init_idt :: "u64 \<Rightarrow> IdtPointer" where
  "init_idt idt_address = idt_pointer idt_address"

definition timer_interrupt_handler ::
    "'w waker_ops \<Rightarrow> (TaskId, 'q) queue_ops \<Rightarrow> 'd mmio \<Rightarrow> Apic \<Rightarrow> 'w timer \<Rightarrow> 'q \<Rightarrow> 'd \<Rightarrow> ('w timer \<times> 'q \<times> 'd) outcome" where
  "timer_interrupt_handler W Q mm apic t q d =
     bindO (raise_timer W Q t q) (\<lambda>(t, q). Done (t, q, notify_end_of_interrupt mm apic d))"

definition keyboard_interrupt_handler ::
    "(u8, 's) queue_ops \<Rightarrow> 'w waker_ops \<Rightarrow> (TaskId, 'q) queue_ops \<Rightarrow> 'd bus \<Rightarrow> 'd mmio \<Rightarrow> Apic \<Rightarrow> ('s, 'w) keyboard \<Rightarrow> 'q \<Rightarrow> 'd
      \<Rightarrow> (('s, 'w) keyboard \<times> 'q \<times> 'd) outcome" where
  "keyboard_interrupt_handler S W Q bus mm apic k q d =
     (let port = Port_new 0x60;
          (scancode, d) = Port_read bus port d
      in bindO (add_scancode S W Q scancode k q) (\<lambda>(k, q). Done (k, q, notify_end_of_interrupt mm apic d)))"

section \<open>The table\<close>

text \<open>Which handler a vector should have.\<close>

definition handler_of :: "handler_addresses \<Rightarrow> nat \<Rightarrow> u64 option" where
  "handler_of hs = [3 \<mapsto> breakpoint_handler hs, 8 \<mapsto> double_fault_handler hs, 13 \<mapsto> general_protection_fault_handler hs,
     14 \<mapsto> page_fault_handler hs, 32 \<mapsto> timer_interrupt_handler_addr hs, 33 \<mapsto> keyboard_interrupt_handler_addr hs,
     39 \<mapsto> spurious_handler hs]"

definition ist_entry :: "Entry \<Rightarrow> Entry" where
  "ist_entry e = e\<lparr>options := set_stack_index DOUBLE_FAULT_IST_INDEX (options e)\<rparr>"

definition idt_list :: "u16 \<Rightarrow> handler_addresses \<Rightarrow> Entry list" where
  "idt_list sel hs = (replicate 256 Entry_missing)
     [3 := set_handler_fn sel (breakpoint_handler hs) Entry_missing,
      8 := ist_entry (set_handler_fn sel (double_fault_handler hs) Entry_missing),
      13 := set_handler_fn sel (general_protection_fault_handler hs) Entry_missing,
      32 := set_handler_fn sel (timer_interrupt_handler_addr hs) Entry_missing,
      33 := set_handler_fn sel (keyboard_interrupt_handler_addr hs) Entry_missing,
      39 := set_handler_fn sel (spurious_handler hs) Entry_missing,
      14 := set_handler_fn sel (page_fault_handler hs) Entry_missing]"

lemma new_vectors: "idt_vectors InterruptDescriptorTable_new = replicate 256 Entry_missing"
proof -
  have "idt_exceptions InterruptDescriptorTable_new = replicate 32 Entry_missing"
    by (simp add: idt_exceptions_def InterruptDescriptorTable_new_def numeral_eq_Suc)
  moreover have "replicate 256 Entry_missing = replicate 32 Entry_missing @ replicate 224 Entry_missing" by (simp flip: replicate_add)
  ultimately show ?thesis by (simp add: idt_vectors_def InterruptDescriptorTable_new_def)
qed

lemma exception_updates:
  "idt_vectors (idt\<lparr>breakpoint := e\<rparr>) = (idt_vectors idt)[3 := e]"
  "idt_vectors (idt\<lparr>double_fault := e\<rparr>) = (idt_vectors idt)[8 := e]"
  "idt_vectors (idt\<lparr>general_protection_fault := e\<rparr>) = (idt_vectors idt)[13 := e]"
  "idt_vectors (idt\<lparr>page_fault := e\<rparr>) = (idt_vectors idt)[14 := e]"
  by (simp_all add: idt_vectors_def idt_exceptions_def)

lemma index_updates:
  assumes "idt_wf idt"
  shows "idt_index_mut (as_usize i) f idt = Done (idt\<lparr>interrupts := (interrupts idt)[unat (as_u8 i) - 32 := f (interrupts idt ! (unat (as_u8 i) - 32))]\<rparr>)"
    "idt_vectors (idt\<lparr>interrupts := (interrupts idt)[unat (as_u8 i) - 32 := e]\<rparr>) = (idt_vectors idt)[unat (as_u8 i) := e]"
proof -
  show "idt_index_mut (as_usize i) f idt = Done (idt\<lparr>interrupts := (interrupts idt)[unat (as_u8 i) - 32 := f (interrupts idt ! (unat (as_u8 i) - 32))]\<rparr>)"
    by (cases i) (simp_all add: idt_index_mut_def as_usize_def PIC_1_OFFSET_def)
  have "32 \<le> unat (as_u8 i)" by (cases i) (simp_all add: PIC_1_OFFSET_def)
  from idt_vectors_high(2) [OF assms this]
  show "idt_vectors (idt\<lparr>interrupts := (interrupts idt)[unat (as_u8 i) - 32 := e]\<rparr>) = (idt_vectors idt)[unat (as_u8 i) := e]" by simp
qed

lemma interrupts_nth: "idt_wf idt \<Longrightarrow> interrupts idt ! (unat (as_u8 i) - 32) = idt_vectors idt ! unat (as_u8 i)"
proof -
  assume wf: "idt_wf idt"
  have "32 \<le> unat (as_u8 i)" by (cases i) (simp_all add: PIC_1_OFFSET_def)
  then show ?thesis using idt_vectors_high(1) [OF wf] by simp
qed

lemma IDT_run:
  "\<exists>idt. IDT sel hs = Done idt \<and> idt_wf idt \<and> idt_vectors idt = idt_list sel hs"
proof -
  let ?n = InterruptDescriptorTable_new
  define i1 where "i1 = ?n\<lparr>breakpoint := set_handler_fn sel (breakpoint_handler hs) (breakpoint ?n),
      double_fault := ist_entry (set_handler_fn sel (double_fault_handler hs) (double_fault ?n)),
      general_protection_fault := set_handler_fn sel (general_protection_fault_handler hs) (general_protection_fault ?n)\<rparr>"
  define upd where "upd i h idt = idt\<lparr>interrupts := (interrupts idt)[unat (as_u8 i) - 32 := set_handler_fn sel h (interrupts idt ! (unat (as_u8 i) - 32))]\<rparr>"
    for i h and idt :: InterruptDescriptorTable
  define i2 where "i2 = upd SpuriousIndex (spurious_handler hs) (upd KeyboardIndex (keyboard_interrupt_handler_addr hs) (upd TimerIndex (timer_interrupt_handler_addr hs) i1))"
  have wf: "idt_wf i1" "idt_wf idt \<Longrightarrow> idt_wf (upd i h idt)" for i h idt
    by (simp_all add: i1_def upd_def idt_wf_def InterruptDescriptorTable_new_def)
  have u: "idt_index_mut (as_usize i) (set_handler_fn sel h) idt = Done (upd i h idt)" if "idt_wf idt" for i h idt
    using index_updates(1) [OF that] by (simp add: upd_def)
  have run: "IDT sel hs = Done (i2\<lparr>page_fault := set_handler_fn sel (page_fault_handler hs) (page_fault i2)\<rparr>)"
    using wf by (simp add: IDT_def Let_def ist_entry_def [symmetric] i1_def [symmetric] u i2_def)
  have v: "idt_vectors (upd i h idt) = (idt_vectors idt)[unat (as_u8 i) := set_handler_fn sel h (idt_vectors idt ! unat (as_u8 i))]" if "idt_wf idt" for i h idt
    using index_updates(2) [OF that] interrupts_nth [OF that] by (simp add: upd_def)
  have n: "breakpoint ?n = Entry_missing" "double_fault ?n = Entry_missing" "general_protection_fault ?n = Entry_missing"
    by (simp_all add: InterruptDescriptorTable_new_def)
  have "page_fault i2 = Entry_missing" by (simp add: i2_def upd_def i1_def InterruptDescriptorTable_new_def)
  then have "idt_vectors (i2\<lparr>page_fault := set_handler_fn sel (page_fault_handler hs) (page_fault i2)\<rparr>) = idt_list sel hs"
    using wf by (simp add: exception_updates i2_def v i1_def new_vectors n idt_list_def PIC_1_OFFSET_def)
  moreover have "idt_wf (i2\<lparr>page_fault := e\<rparr>)" for e using wf by (simp add: i2_def idt_wf_def)
  ultimately show ?thesis using run by blast
qed

lemma ist_entry_fields:
  "handler_addr (ist_entry e) = handler_addr e" "gdt_selector (ist_entry e) = gdt_selector e" "options (ist_entry e) = options e OR 1"
  by (simp_all add: ist_entry_def handler_addr_def set_stack_index_def DOUBLE_FAULT_IST_INDEX_def get_bits_def)

lemma handler_entry:
  "is_present_entry (set_handler_fn sel h Entry_missing)" "options (set_handler_fn sel h Entry_missing) AND 7 = 0"
  "is_present_entry (ist_entry (set_handler_fn sel h Entry_missing))" "options (ist_entry (set_handler_fn sel h Entry_missing)) AND 7 = 1"
  "\<not> is_present_entry Entry_missing"
proof -
  have o: "options (set_handler_fn sel h Entry_missing) = 0x8e00" "options (ist_entry (set_handler_fn sel h Entry_missing)) = 0x8e01"
    by (simp_all add: ist_entry_fields set_handler_fields Entry_missing_def EntryOptions_minimal_def)
  have "(0x8e00 :: int) = push_bit 15 (mask 1) OR push_bit 9 (mask 3)" "(0x8e01 :: int) = push_bit 15 (mask 1) OR push_bit 9 (mask 3) OR mask 1"
    "(0xe00 :: int) = push_bit 9 (mask 3)" by (simp_all add: mask_eq_exp_minus_1)
  then have "bit (0x8e00 :: int) 15" "bit (0x8e01 :: int) 15" "\<not> bit (0xe00 :: int) 15"
    by (simp_all only: bit_or_iff bit_push_bit_iff bit_mask_iff) auto
  then show "is_present_entry (set_handler_fn sel h Entry_missing)" "is_present_entry (ist_entry (set_handler_fn sel h Entry_missing))"
    "\<not> is_present_entry Entry_missing"
    by (simp_all add: is_present_entry_def o bit_simps) (simp add: Entry_missing_def EntryOptions_minimal_def bit_simps)
  show "options (set_handler_fn sel h Entry_missing) AND 7 = 0" "options (ist_entry (set_handler_fn sel h Entry_missing)) AND 7 = 1"
    by (simp_all add: o)
qed

section \<open>Properties\<close>

text \<open>
  C39. The table the kernel loads has handlers exactly at the vectors of its seven handlers, each with its address, the code
  selector and its own stack only for the double fault: slot 1 of the task state segment, where \<open>TSS\<close> puts the end of the emergency stack.
\<close>

theorem idt_installed:
  assumes "v < 256"
  shows "\<exists>idt. IDT sel hs = Done idt \<and>
    (case handler_of hs v of
       None \<Rightarrow> \<not> is_present_entry (idt_vectors idt ! v)
     | Some h \<Rightarrow> is_present_entry (idt_vectors idt ! v) \<and> handler_addr (idt_vectors idt ! v) = VirtAddr_new h \<and>
         gdt_selector (idt_vectors idt ! v) = sel \<and> options (idt_vectors idt ! v) AND 7 = (if v = 8 then 1 else 0)) \<and>
    interrupt_stack_table (TSS stack) ! 0 = VirtAddr_new (VirtAddr_from_ptr stack + STACK_SIZE)"
proof -
  obtain idt where idt: "IDT sel hs = Done idt" "idt_vectors idt = idt_list sel hs" using IDT_run by blast
  have tss: "interrupt_stack_table (TSS stack) ! 0 = VirtAddr_new (VirtAddr_from_ptr stack + STACK_SIZE)"
    by (simp add: TSS_def TaskStateSegment_new_def Let_def DOUBLE_FAULT_IST_INDEX_def)
  consider "v = 3" | "v = 8" | "v = 13" | "v = 14" | "v = 32" | "v = 33" | "v = 39" | "v \<notin> {3, 8, 13, 14, 32, 33, 39}" by blast
  then show ?thesis using idt tss assms
    by cases (auto simp: handler_of_def idt_list_def handler_entry ist_entry_fields(1, 2) set_handler_fields(1, 3))
qed


section \<open>Sample interrupts\<close>

definition handlers_sample :: handler_addresses where
  "handlers_sample = \<lparr>breakpoint_handler = 0x1000, double_fault_handler = 0x2000, general_protection_fault_handler = 0x3000,
     timer_interrupt_handler_addr = 0x4000, keyboard_interrupt_handler_addr = 0x5000, spurious_handler = 0x6000, page_fault_handler = 0x7000\<rparr>"

theorem idt_installed_witness:
  "\<exists>idt. IDT 8 handlers_sample = Done idt \<and> handler_addr (idt_vectors idt ! 8) = VirtAddr_new 0x2000 \<and> options (idt_vectors idt ! 8) AND 7 = 1"
  using idt_installed [of 8 8 handlers_sample 0] by (auto simp: handler_of_def handlers_sample_def)


end
