(* ===== verification/Executor.thy ===== *)
theory Executor
  imports Wakers
begin

text \<open>
  The executor of the kernel's tasks (\<^verbatim>\<open>src/task/mod.rs\<close>, \<^verbatim>\<open>src/task/executor.rs\<close>). A future is any state with a poll, the parameter \<open>poll\<close>: given
  the waker, it returns whether it is ready and may change the rest of the kernel (\<open>'s\<close>) and put identifiers into the task queue,
  as do the interrupt handlers that run during it. The queue is the bounded queue of \<open>Wakers\<close>.
\<close>

section \<open>The code\<close>

record 'f Task =
  task_id :: TaskId
  future :: 'f

text \<open>\<open>fetch_add\<close> on the counter \<open>NEXT_ID\<close>, which wraps around.\<close>

definition TaskId_new :: "u64 \<Rightarrow> TaskId \<times> u64" where
  "TaskId_new NEXT_ID = (NEXT_ID, NEXT_ID + 1)"

definition Task_new :: "'f \<Rightarrow> u64 \<Rightarrow> 'f Task \<times> u64" where
  "Task_new f NEXT_ID = (let (i, NEXT_ID) = TaskId_new NEXT_ID in (\<lparr>task_id = i, future = f\<rparr>, NEXT_ID))"

type_synonym ('f, 's, 'q) poll = "TaskId \<Rightarrow> 'f \<Rightarrow> 's \<Rightarrow> 'q \<Rightarrow> (bool \<times> 'f \<times> 's \<times> 'q) outcome"

definition Task_poll :: "('f, 's, 'q) poll \<Rightarrow> TaskId \<Rightarrow> 'f Task \<Rightarrow> 's \<Rightarrow> 'q \<Rightarrow> (bool \<times> 'f Task \<times> 's \<times> 'q) outcome" where
  "Task_poll poll waker self s q =
     bindO (poll waker (future self) s q) (\<lambda>(r, f, s, q). Done (r, self\<lparr>future := f\<rparr>, s, q))"

record ('f, 'q) Executor =
  tasks :: "(TaskId \<times> 'f Task) list"
  task_queue :: 'q
  waker_cache :: "(TaskId \<times> TaskId) list"

definition Executor_new :: "(TaskId, 'q) queue_ops \<Rightarrow> ('f, 'q) Executor" where
  "Executor_new Q = \<lparr>tasks = [], task_queue = q_new Q 100, waker_cache = []\<rparr>"

definition spawn :: "(TaskId, 'q) queue_ops \<Rightarrow> 'f Task \<Rightarrow> ('f, 'q) Executor \<Rightarrow> ('f, 'q) Executor outcome" where
  "spawn Q task self =
     (let i = task_id task;
          old = map_of (tasks self) i;
          self = self\<lparr>tasks := bt_insert i task (tasks self)\<rparr>
      in if old \<noteq> None then Panic ''task with same ID already in tasks''
         else let (r, q) = q_push Q i (task_queue self)
              in bindO (expect ''queue full'' r) (\<lambda>_. Done (self\<lparr>task_queue := q\<rparr>)))"

text \<open>A waker carries the identifier of its task (and shares the queue).\<close>

definition TaskWaker_new :: "TaskId \<Rightarrow> TaskId" where
  "TaskWaker_new i = i"

text \<open>\<open>waker_cache.entry(id).or_insert_with(..)\<close>.\<close>

definition cached_waker :: "TaskId \<Rightarrow> ('f, 'q) Executor \<Rightarrow> TaskId \<times> ('f, 'q) Executor" where
  "cached_waker i self =
     (case map_of (waker_cache self) i of
        Some w \<Rightarrow> (w, self)
      | None \<Rightarrow> let w = TaskWaker_new i in (w, self\<lparr>waker_cache := bt_insert i w (waker_cache self)\<rparr>))"

fun run_ready_tasks ::
    "nat \<Rightarrow> (TaskId, 'q) queue_ops \<Rightarrow> ('f, 's, 'q) poll \<Rightarrow> 's \<Rightarrow> ('f, 'q) Executor \<Rightarrow> ('s \<times> ('f, 'q) Executor) outcome" where
  "run_ready_tasks 0 Q poll s self = Hang"
| "run_ready_tasks (Suc fuel) Q poll s self =
     (let (r, q) = q_pop Q (task_queue self);
          self = self\<lparr>task_queue := q\<rparr>
      in case r of
           None \<Rightarrow> Done (s, self)
         | Some i \<Rightarrow>
             (case map_of (tasks self) i of
                None \<Rightarrow> run_ready_tasks fuel Q poll s self
              | Some task \<Rightarrow>
                  let (waker, self) = cached_waker i self
                  in bindO (Task_poll poll waker task s (task_queue self)) (\<lambda>(ready, task, s, q).
                     let self = self\<lparr>task_queue := q\<rparr>;
                         self = (if ready
                                 then self\<lparr>tasks := bt_remove i (tasks self), waker_cache := bt_remove i (waker_cache self)\<rparr>
                                 else self\<lparr>tasks := bt_insert i task (tasks self)\<rparr>)
                     in run_ready_tasks fuel Q poll s self)))"

text \<open>
  \<open>sleep_if_idle\<close>: interrupts are disabled, then the queue is inspected. \<open>hlt\<close> resumes after an interrupt, whose effect on the kernel
  and the queue is \<open>wait\<close>.
\<close>

definition sleep_if_idle ::
    "(TaskId, 'q) queue_ops \<Rightarrow> ('s \<Rightarrow> 'q \<Rightarrow> ('s \<times> 'q) outcome) \<Rightarrow> 's \<Rightarrow> ('f, 'q) Executor \<Rightarrow> ('s \<times> ('f, 'q) Executor) outcome" where
  "sleep_if_idle Q wait s self =
     (if q_is_empty Q (task_queue self)
      then bindO (wait s (task_queue self)) (\<lambda>(s, q). Done (s, self\<lparr>task_queue := q\<rparr>))
      else Done (s, self))"

text \<open>\<open>run\<close>, with the flag \<open>STOP\<close> read from the rest of the kernel; \<open>fuel\<close> bounds the rounds and the polls of each.\<close>

fun executor_run ::
    "nat \<Rightarrow> (TaskId, 'q) queue_ops \<Rightarrow> ('f, 's, 'q) poll \<Rightarrow> ('s \<Rightarrow> 'q \<Rightarrow> ('s \<times> 'q) outcome) \<Rightarrow> ('s \<Rightarrow> bool)
      \<Rightarrow> nat \<Rightarrow> 's \<Rightarrow> ('f, 'q) Executor \<Rightarrow> ('s \<times> ('f, 'q) Executor) outcome" where
  "executor_run fuel Q poll wait STOP 0 s self = Hang"
| "executor_run fuel Q poll wait STOP (Suc n) s self =
     (if STOP s then Done (s, self)
      else bindO (run_ready_tasks fuel Q poll s self) (\<lambda>(s, self).
           bindO (sleep_if_idle Q wait s self) (\<lambda>(s, self). executor_run fuel Q poll wait STOP n s self)))"

section \<open>The interleaving of idling with interrupts\<close>

text \<open>
  The instructions of \<open>sleep_if_idle\<close> as steps of a machine with an interrupt flag: an interrupt can run a handler only while the flag
  is set, and the processor takes none between \<open>sti\<close> and the instruction after it, \<open>hlt\<close>. A halted processor goes on after a handler.
\<close>

datatype idle_pc = Enter | Masked | Halted | Returned

inductive idle_step :: "(TaskId, 'q) queue_ops \<Rightarrow> ('q \<Rightarrow> 'q \<Rightarrow> bool) \<Rightarrow> idle_pc \<times> bool \<times> 'q \<Rightarrow> idle_pc \<times> bool \<times> 'q \<Rightarrow> bool"
  for Q handler where
  cli: "idle_step Q handler (Enter, flag, q) (Masked, False, q)"
| sti_hlt: "q_is_empty Q q \<Longrightarrow> idle_step Q handler (Masked, flag, q) (Halted, True, q)"
| sti: "\<not> q_is_empty Q q \<Longrightarrow> idle_step Q handler (Masked, flag, q) (Returned, True, q)"
| irq: "handler q q' \<Longrightarrow> pc \<noteq> Halted \<Longrightarrow> idle_step Q handler (pc, True, q) (pc, True, q')"
| irq_halted: "handler q q' \<Longrightarrow> idle_step Q handler (Halted, True, q) (Returned, True, q')"

inductive idle_steps :: "(TaskId, 'q) queue_ops \<Rightarrow> ('q \<Rightarrow> 'q \<Rightarrow> bool) \<Rightarrow> idle_pc \<times> bool \<times> 'q \<Rightarrow> idle_pc \<times> bool \<times> 'q \<Rightarrow> bool"
  for Q handler where
  idle_refl: "idle_steps Q handler x x"
| idle_trans: "idle_steps Q handler x y \<Longrightarrow> idle_step Q handler y z \<Longrightarrow> idle_steps Q handler x z"

inductive_cases idle_step_halted: "idle_step Q handler (Halted, flag, q) z"

definition idle_inv :: "(TaskId, 'q) queue_ops \<Rightarrow> idle_pc \<times> bool \<times> 'q \<Rightarrow> bool" where
  "idle_inv Q x \<longleftrightarrow> (case x of (pc, flag, q) \<Rightarrow>
     (pc = Masked \<longrightarrow> \<not> flag) \<and> (pc = Halted \<longrightarrow> flag \<and> q_is_empty Q q) \<and> (pc = Returned \<longrightarrow> flag))"

lemma idle_inv_step: "idle_step Q handler x y \<Longrightarrow> idle_inv Q x \<Longrightarrow> idle_inv Q y"
  by (induction rule: idle_step.induct) (auto simp: idle_inv_def)

lemma idle_inv_steps: "idle_steps Q handler x y \<Longrightarrow> idle_inv Q x \<Longrightarrow> idle_inv Q y"
  by (induction rule: idle_steps.induct) (auto intro: idle_inv_step)

section \<open>The executor as a table of futures\<close>

definition executor_ok :: "('f, 'q) Executor \<Rightarrow> bool" where
  "executor_ok self \<longleftrightarrow> bt_sorted (tasks self) \<and> bt_sorted (waker_cache self) \<and>
     (\<forall>i task. map_of (tasks self) i = Some task \<longrightarrow> task_id task = i) \<and>
     (\<forall>i w. map_of (waker_cache self) i = Some w \<longrightarrow> w = i \<and> map_of (tasks self) i \<noteq> None)"

definition futures :: "('f, 'q) Executor \<Rightarrow> TaskId \<Rightarrow> 'f option" where
  "futures self i = map_option future (map_of (tasks self) i)"

text \<open>
  What the executor promises: the identifiers are served in the order of the queue, each by one poll of its future, with its own
  identifier as the waker; a finished future is forgotten and an unknown identifier ignored.
\<close>

fun serve :: "nat \<Rightarrow> (TaskId, 'q) queue_ops \<Rightarrow> ('f, 's, 'q) poll \<Rightarrow> 's \<Rightarrow> (TaskId \<Rightarrow> 'f option) \<Rightarrow> 'q \<Rightarrow> ('s \<times> (TaskId \<Rightarrow> 'f option) \<times> 'q) outcome" where
  "serve 0 Q poll s fs q = Hang"
| "serve (Suc fuel) Q poll s fs q =
     (case q_pop Q q of
        (None, q) \<Rightarrow> Done (s, fs, q)
      | (Some i, q) \<Rightarrow>
          (case fs i of
             None \<Rightarrow> serve fuel Q poll s fs q
           | Some f \<Rightarrow> bindO (poll i f s q) (\<lambda>(ready, f, s, q). serve fuel Q poll s (fs(i := if ready then None else Some f)) q)))"

definition outcome_map :: "('a \<Rightarrow> 'b) \<Rightarrow> 'a outcome \<Rightarrow> 'b outcome" where
  "outcome_map g m = bindO m (\<lambda>x. Done (g x))"

lemma cached_waker_ok:
  assumes "executor_ok self" "map_of (tasks self) i = Some task"
  shows "fst (cached_waker i self) = i" "executor_ok (snd (cached_waker i self))" "tasks (snd (cached_waker i self)) = tasks self"
    "task_queue (snd (cached_waker i self)) = task_queue self"
  using assms
  by (auto simp: cached_waker_def TaskWaker_new_def executor_ok_def map_of_bt_insert bt_sorted_insert split: option.splits if_splits)

lemma executor_ok_ready:
  assumes "executor_ok self"
  shows "executor_ok (self\<lparr>task_queue := q, tasks := bt_remove i (tasks self), waker_cache := bt_remove i (waker_cache self)\<rparr>)"
  using assms by (auto simp: executor_ok_def map_of_bt_remove bt_sorted_remove split: if_splits)

lemma executor_ok_pending:
  assumes "executor_ok self" "map_of (tasks self) i = Some task"
  shows "executor_ok (self\<lparr>task_queue := q, tasks := bt_insert i (task\<lparr>future := f\<rparr>) (tasks self)\<rparr>)"
  using assms by (auto simp: executor_ok_def map_of_bt_insert bt_sorted_insert split: if_splits)

lemma executor_ok_queue [simp]: "executor_ok (self\<lparr>task_queue := q\<rparr>) = executor_ok self" "futures (self\<lparr>task_queue := q\<rparr>) = futures self"
  by (auto simp: executor_ok_def futures_def)

text \<open>One poll keeps the executor well-formed and updates the table of futures.\<close>

definition after_poll :: "TaskId \<Rightarrow> 'f Task \<Rightarrow> bool \<Rightarrow> 'f \<Rightarrow> 'q \<Rightarrow> ('f, 'q) Executor \<Rightarrow> ('f, 'q) Executor" where
  "after_poll i task ready f q self =
     (if ready then self\<lparr>task_queue := q, tasks := bt_remove i (tasks self), waker_cache := bt_remove i (waker_cache self)\<rparr>
      else self\<lparr>task_queue := q, tasks := bt_insert i (task\<lparr>future := f\<rparr>) (tasks self)\<rparr>)"

lemma after_poll_ok:
  assumes "executor_ok self" "map_of (tasks self) i = Some task"
  shows "executor_ok (after_poll i task ready f q self)" "task_queue (after_poll i task ready f q self) = q"
    "futures (after_poll i task ready f q self) = (futures self)(i := if ready then None else Some f)"
proof -
  show "executor_ok (after_poll i task ready f q self)"
    using executor_ok_ready [OF assms(1)] executor_ok_pending [OF assms] by (simp add: after_poll_def)
  have "bt_sorted (tasks self)" using assms(1) by (simp add: executor_ok_def)
  then show "futures (after_poll i task ready f q self) = (futures self)(i := if ready then None else Some f)"
    by (auto simp: after_poll_def futures_def fun_eq_iff map_of_bt_insert map_of_bt_remove)
qed (simp add: after_poll_def)

lemma run_ready_unfold:
  assumes ok: "executor_ok self" and pop: "q_pop Q (task_queue self) = (Some i, q)" and task: "map_of (tasks self) i = Some task"
  shows "\<exists>self1. executor_ok self1 \<and> futures self1 = futures self \<and> map_of (tasks self1) i = Some task \<and>
    run_ready_tasks (Suc fuel) Q poll s self =
      bindO (poll i (future task) s q) (\<lambda>(ready, f, s, q). run_ready_tasks fuel Q poll s (after_poll i task ready f q self1))"
proof -
  let ?self = "self\<lparr>task_queue := q\<rparr>"
  let ?c = "cached_waker i ?self"
  have ok0: "executor_ok ?self" and task0: "map_of (tasks ?self) i = Some task" using ok task by simp_all
  note c = cached_waker_ok [OF ok0 task0]
  obtain w self1 where cw: "?c = (w, self1)" by fastforce
  have w: "w = i" "executor_ok self1" "tasks self1 = tasks self" "task_queue self1 = q" using c cw by auto
  have "run_ready_tasks (Suc fuel) Q poll s self =
      bindO (poll i (future task) s q) (\<lambda>(ready, f, s, q). run_ready_tasks fuel Q poll s (after_poll i task ready f q self1))"
    using pop task cw w by (cases "poll i (future task) s q") (auto simp: Task_poll_def after_poll_def Let_def)
  then show ?thesis using w task by (intro exI [of _ self1]) (simp add: futures_def fun_eq_iff)
qed

lemma run_ready_serve:
  assumes "executor_ok self"
  shows "outcome_map (\<lambda>(s, self). (s, futures self, task_queue self)) (run_ready_tasks fuel Q poll s self) =
      serve fuel Q poll s (futures self) (task_queue self) \<and>
    (\<forall>s' self'. run_ready_tasks fuel Q poll s self = Done (s', self') \<longrightarrow> executor_ok self')"
  using assms
proof (induction fuel arbitrary: s self)
  case (Suc fuel)
  obtain r q where pop: "q_pop Q (task_queue self) = (r, q)" by fastforce
  show ?case
  proof (cases r)
    case None
    then show ?thesis using pop Suc.prems by (auto simp: outcome_map_def)
  next
    case (Some i)
    show ?thesis
    proof (cases "map_of (tasks self) i")
      case None
      then show ?thesis using pop Some Suc.IH [of "self\<lparr>task_queue := q\<rparr>" s] Suc.prems by (simp add: futures_def [of self i])
    next
      case (Some task)
      have pop': "q_pop Q (task_queue self) = (Some i, q)" using pop \<open>r = Some i\<close> by simp
      obtain self1 where s1: "executor_ok self1" "futures self1 = futures self" "map_of (tasks self1) i = Some task"
        "run_ready_tasks (Suc fuel) Q poll s self =
          bindO (poll i (future task) s q) (\<lambda>(ready, f, s, q). run_ready_tasks fuel Q poll s (after_poll i task ready f q self1))"
        using run_ready_unfold [OF Suc.prems pop' Some, where fuel = fuel and poll = poll and s = s] by (elim exE conjE) (rule that)
      have f: "futures self i = Some (future task)" using Some by (simp add: futures_def)
      show ?thesis
      proof (cases "poll i (future task) s q")
        case (Done x)
        obtain ready f' s' q' where x: "x = (ready, f', s', q')" using prod_cases4 by blast
        note a = after_poll_ok [OF s1(1, 3), of ready f' q']
        have run: "run_ready_tasks (Suc fuel) Q poll s self = run_ready_tasks fuel Q poll s' (after_poll i task ready f' q' self1)"
          using s1(4) Done x by (simp del: run_ready_tasks.simps)
        show ?thesis unfolding run using Suc.IH [OF a(1), of s'] a(2, 3) s1(2) Done x f pop'
          by (simp add: fun_upd_def del: run_ready_tasks.simps)
      qed (use s1(4) f pop' in \<open>simp_all add: outcome_map_def\<close>)
    qed
  qed
qed (simp add: outcome_map_def)

lemma serve_terminates:
  assumes Q: "array_queue Q contents cap"
    and polls: "\<And>i f s q. I s q \<Longrightarrow> \<exists>ready f' s' q'. poll i f s q = Done (ready, f', s', q') \<and> I s' q' \<and>
      length (contents q') + potential s' \<le> length (contents q) + potential s"
    and pops: "\<And>s q. I s q \<Longrightarrow> I s (snd (q_pop Q q))"
    and "I s q" "length (contents q) + potential s < fuel"
  shows "\<exists>s' fs' q'. serve fuel Q poll s fs q = Done (s', fs', q') \<and> contents q' = []"
  using assms(4, 5)
proof (induction fuel arbitrary: s fs q)
  case (Suc fuel)
  show ?case
  proof (cases "contents q")
    case Nil
    then show ?thesis using queue_pop_empty [OF Q Nil] by simp
  next
    case (Cons i ids)
    obtain q1 where pop: "q_pop Q q = (Some i, q1)" "contents q1 = ids" using queue_pop [OF Q Cons] by (metis prod.collapse)
    have I1: "I s q1" using pops [OF Suc.prems(1)] pop(1) by simp
    show ?thesis
    proof (cases "fs i")
      case None
      then show ?thesis using Suc.IH [OF I1, of fs] Suc.prems(2) pop Cons by simp
    next
      case (Some f)
      obtain ready f' s' q' where p: "poll i f s q1 = Done (ready, f', s', q')" "I s' q'"
        "length (contents q') + potential s' \<le> length (contents q1) + potential s" using polls [OF I1] by blast
      then show ?thesis using Suc.IH [of s' q' "fs(i := if ready then None else Some f')"] Suc.prems(2) pop Cons Some
        by (simp add: fun_upd_def)
    qed
  qed
qed simp

section \<open>Properties\<close>

text \<open>
  C2. The executor implements its specification: with its maps of tasks and of cached wakers it serves the identifiers in
  the queue exactly as \<open>serve\<close> does on a plain table of futures, panics and endless loops included, and keeps its invariant
  (tasks under their own identifiers, a cached waker only for an existing task and waking that task).
\<close>

theorem executor_refines:
  assumes "executor_ok self"
  shows "outcome_map (\<lambda>(s, self). (s, futures self, task_queue self)) (run_ready_tasks fuel Q poll s self) =
      serve fuel Q poll s (futures self) (task_queue self) \<and>
    (\<forall>s' self'. run_ready_tasks fuel Q poll s self = Done (s', self') \<longrightarrow> executor_ok self')"
  by (rule run_ready_serve [OF assms])

text \<open>
  C12. \<open>run_ready_tasks\<close> terminates with an empty queue, if under some invariant (such as room in the queue) the polls return
  and the wake-ups they and the interrupts during them cause are paid for by a potential of the kernel's state (such as the number
  of registered wakers): the loop takes at most as many rounds as there are identifiers in the queue and units of potential.
\<close>

theorem run_ready_tasks_terminates:
  assumes ok: "executor_ok self" and Q: "array_queue Q contents cap"
    and polls: "\<And>i f s q. I s q \<Longrightarrow> \<exists>ready f' s' q'. poll i f s q = Done (ready, f', s', q') \<and> I s' q' \<and>
      length (contents q') + potential s' \<le> length (contents q) + potential s"
    and pops: "\<And>s q. I s q \<Longrightarrow> I s (snd (q_pop Q q))"
    and inv: "I s (task_queue self)" and fuel: "length (contents (task_queue self)) + potential s < fuel"
  shows "\<exists>s' self'. run_ready_tasks fuel Q poll s self = Done (s', self') \<and> contents (task_queue self') = [] \<and> executor_ok self'"
proof -
  have "\<exists>s' fs' q'. serve fuel Q poll s (futures self) (task_queue self) = Done (s', fs', q') \<and> contents q' = []"
    by (rule serve_terminates [where I = I and poll = poll and potential = potential, OF Q _ _ inv fuel]) (fact polls, fact pops)
  then show ?thesis using run_ready_serve [OF ok, of fuel Q poll s]
    by (cases "run_ready_tasks fuel Q poll s self") (auto simp: outcome_map_def)
qed


text \<open>
  A new task is entered under its identifier at the end of the queue; the invariant is kept. A task with an identifier in
  use makes \<open>spawn\<close> panic, as does a full queue.
\<close>

theorem spawn_runs_task:
  assumes Q: "array_queue Q contents cap" and ok: "executor_ok self"
  shows "(case spawn Q task self of
       Done self' \<Rightarrow> futures self (task_id task) = None \<and> executor_ok self' \<and>
         futures self' = (futures self)(task_id task \<mapsto> future task) \<and> contents (task_queue self') = contents (task_queue self) @ [task_id task]
     | Panic m \<Rightarrow> futures self (task_id task) \<noteq> None \<or> length (contents (task_queue self)) = cap (task_queue self) \<or> cap (task_queue self) < length (contents (task_queue self))
     | Hang \<Rightarrow> False)"
proof (cases "map_of (tasks self) (task_id task)")
  case None
  let ?self = "self\<lparr>tasks := bt_insert (task_id task) task (tasks self)\<rparr>"
  have s: "bt_sorted (tasks self)" using ok by (simp add: executor_ok_def)
  then have ok': "executor_ok ?self" using ok None
    by (auto simp: executor_ok_def map_of_bt_insert bt_sorted_insert split: if_splits)
  have f: "futures ?self = (futures self)(task_id task \<mapsto> future task)" using s by (auto simp: futures_def fun_eq_iff map_of_bt_insert)
  show ?thesis
  proof (cases "length (contents (task_queue self)) < cap (task_queue self)")
    case True
    then show ?thesis using None ok' f queue_push [OF Q True, of "task_id task"]
      by (simp add: spawn_def split_def Let_def futures_def [of self "task_id task"])
  next
    case False
    then show ?thesis using None queue_full [OF Q False, of "task_id task"] by (auto simp: spawn_def Let_def futures_def)
  qed
qed (simp add: spawn_def Let_def futures_def)

section \<open>A sample executor\<close>

text \<open>A task that counts down, waking itself, while there is potential left.\<close>

definition countdown :: "(nat, nat, nat \<times> TaskId list) poll" where
  "countdown i f s q =
     (if s = 0 \<or> f = 0 then Done (True, f, s, q) else Done (False, f - 1, s - 1, (fst q, snd q @ [i])))"

definition executor_sample :: "(nat, nat \<times> TaskId list) Executor" where
  "executor_sample = \<lparr>tasks = [(3, \<lparr>task_id = 3, future = 2\<rparr>)], task_queue = (100, [3, 9]), waker_cache = []\<rparr>"

lemma executor_sample_ok: "executor_ok executor_sample"
  by (simp add: executor_ok_def executor_sample_def bt_sorted_def)

theorem executor_refines_witness:
  "outcome_map (\<lambda>(s, self). (s, futures self, task_queue self)) (run_ready_tasks 9 list_queue countdown 5 executor_sample) =
     serve 9 list_queue countdown 5 (futures executor_sample) (100, [3, 9])"
  using executor_refines [OF executor_sample_ok, of 9 list_queue countdown 5] by (simp add: executor_sample_def)

theorem run_ready_tasks_terminates_witness:
  "\<exists>s' self'. run_ready_tasks 9 list_queue countdown 5 executor_sample = Done (s', self') \<and> snd (task_queue self') = [] \<and> executor_ok self'"
proof (rule run_ready_tasks_terminates [OF executor_sample_ok array_queue_list, where potential = id and I = "\<lambda>s q. length (snd q) + s \<le> fst q"])
  show "\<exists>ready f' s' q'. countdown i f s q = Done (ready, f', s', q') \<and> length (snd q') + s' \<le> fst q' \<and>
      length (snd q') + id s' \<le> length (snd q) + id s" if "length (snd q) + s \<le> fst q" for i f s q
    using that by (cases q) (auto simp: countdown_def)
  show "length (snd (snd (q_pop list_queue q))) + s \<le> fst (snd (q_pop list_queue q))" if "length (snd q) + s \<le> fst q" for s :: nat and q :: "nat \<times> TaskId list"
    using that by (auto simp: list_queue_def split: prod.splits list.splits)
qed (simp_all add: executor_sample_def)


theorem spawn_runs_task_witness:
  "case spawn list_queue \<lparr>task_id = 4, future = 1\<rparr> executor_sample of Done self' \<Rightarrow> executor_ok self' \<and> snd (task_queue self') = [3, 9, 4] | _ \<Rightarrow> False"
  using spawn_runs_task [OF array_queue_list executor_sample_ok, of "\<lparr>task_id = 4, future = 1\<rparr>"]
  by (simp add: executor_sample_def spawn_def list_queue_def)

end
