(* ===== verification/Spec2Isabelle.thy ===== *)
theory Spec2Isabelle
  imports Crc Bits Heap Interrupt_Flag Gdt Idt Gpt Pci Chrono Timer Serial Interrupts Executor
begin

text \<open>
  A verification development for the operating system of this repository.
\<close>

end
